theory Spec2Isabelle
  imports Complex_Main "HOL-Library.Stream"
begin

section \<open>The HTTP layer\<close>

text \<open>
  A call of \<^verbatim>\<open>requests.get\<close> either yields a response (status code, the parsed JSON
  list, the URL of the \<^verbatim>\<open>next\<close> link when there is one) or raises
  \<^verbatim>\<open>requests.exceptions.Timeout\<close> or another \<^verbatim>\<open>RequestException\<close>. The
  server is the stream of outcomes of the successive GET requests of one call of a
  fetcher: the head answers the next request, the tail the ones after it.
  \<^verbatim>\<open>time.sleep\<close> is an effect, made explicit as the number of seconds slept so far.
\<close>

datatype 'a response =
    Response (status_code: int) (json: "'a list") (links_next: "string option")
  | Timeout
  | RequestException

record repo =
  r_name :: string
  r_owner_login :: string
  r_stargazers_count :: "int option"

text \<open>
  The \<^verbatim>\<open>merged_at\<close> field of a pull request: JSON null (not merged), a string that
  \<^verbatim>\<open>datetime.fromisoformat\<close> rejects, or a timestamp (seconds since the epoch, UTC).
\<close>

datatype merged_at_field = Null | Malformed | Timestamp int

record pr =
  pr_number :: int
  pr_title :: string
  pr_merged_at :: merged_at_field

text \<open>How a pagination loop ends: by a \<^verbatim>\<open>return\<close> inside it, or by leaving the loop.\<close>

datatype 'a walk = Returned "'a list" | Exited "'a list"

definition truthy :: "string option \<Rightarrow> bool" where
  "truthy url = (case url of None \<Rightarrow> False | Some u \<Rightarrow> u \<noteq> [])"

subsection \<open>\<^verbatim>\<open>fetch_org_repos\<close> (github\_service.py)\<close>

function org_repos_loop ::
  "nat \<Rightarrow> repo response stream \<Rightarrow> string option \<Rightarrow> nat \<Rightarrow> repo list \<Rightarrow> nat
     \<Rightarrow> repo walk \<times> nat" where
  "org_repos_loop max_pages srv url page_count repos slept =
     (if truthy url \<and> page_count < max_pages then
        (case shd srv of
           Timeout \<Rightarrow> (Exited repos, slept)
         | RequestException \<Rightarrow> (Exited repos, slept)
         | Response st data nxt \<Rightarrow>
             if st = 403 then
               org_repos_loop max_pages (stl srv) url (page_count + 1) repos (slept + 60)
             else if st = 404 then (Returned [], slept)
             else if st \<noteq> 200 then (Returned [], slept)
             else org_repos_loop max_pages (stl srv) nxt (page_count + 1) (repos @ data)
                    (slept + 1))
      else (Exited repos, slept))"
  by pat_completeness auto
termination
  by (relation "measure (\<lambda>(max_pages, srv, url, page_count, repos, slept).
        max_pages - page_count)") auto

declare org_repos_loop.simps [simp del]

definition stars :: "repo \<Rightarrow> int" where
  "stars r = (case r_stargazers_count r of None \<Rightarrow> 0 | Some n \<Rightarrow> n)"

text \<open>
  \<^verbatim>\<open>sorted(repos, key=..., reverse=True)[:5]\<close>: a stable sort by descending star
  count, then the first five.
\<close>

definition top5 :: "repo list \<Rightarrow> repo list" where
  "top5 repos = take 5 (sort_key (\<lambda>r. - stars r) repos)"

definition repos_url :: "string \<Rightarrow> string" where
  "repos_url org_name =
     ''https://api.github.com/orgs/'' @ org_name @ ''/repos?per_page=100&type=public''"

definition fetch_org_repos :: "string \<Rightarrow> repo response stream \<Rightarrow> repo list \<times> nat" where
  "fetch_org_repos org_name srv =
     (case org_repos_loop 10 srv (Some (repos_url org_name)) 0 [] 0 of
        (Returned result, slept) \<Rightarrow> (result, slept)
      | (Exited repos, slept) \<Rightarrow> (top5 repos, slept))"

subsection \<open>\<^verbatim>\<open>fetch_repo_pr_data\<close> (github\_service.py)\<close>

function repo_pr_loop ::
  "nat \<Rightarrow> pr response stream \<Rightarrow> string option \<Rightarrow> nat \<Rightarrow> pr list \<Rightarrow> nat
     \<Rightarrow> pr walk \<times> nat" where
  "repo_pr_loop max_pages srv url page_count prs slept =
     (if truthy url \<and> page_count < max_pages then
        (case shd srv of
           Timeout \<Rightarrow> (Exited prs, slept)
         | RequestException \<Rightarrow> (Exited prs, slept)
         | Response st data nxt \<Rightarrow>
             if st = 403 then
               repo_pr_loop max_pages (stl srv) url (page_count + 1) prs (slept + 60)
             else if st = 404 then (Returned [], slept)
             else if st \<noteq> 200 then (Returned [], slept)
             else repo_pr_loop max_pages (stl srv) nxt (page_count + 1) (prs @ data)
                    (slept + 1))
      else (Exited prs, slept))"
  by pat_completeness auto
termination
  by (relation "measure (\<lambda>(max_pages, srv, url, page_count, prs, slept).
        max_pages - page_count)") auto

declare repo_pr_loop.simps [simp del]

definition pulls_url :: "string \<Rightarrow> string \<Rightarrow> string" where
  "pulls_url org_name repo_name =
     ''https://api.github.com/repos/'' @ org_name @ ''/'' @ repo_name @
     ''/pulls?state=all&per_page=100''"

definition fetch_repo_pr_data ::
  "string \<Rightarrow> string \<Rightarrow> pr response stream \<Rightarrow> pr list \<times> nat" where
  "fetch_repo_pr_data org_name repo_name srv =
     (case repo_pr_loop 20 srv (Some (pulls_url org_name repo_name)) 0 [] 0 of
        (Returned result, slept) \<Rightarrow> (result, slept)
      | (Exited prs, slept) \<Rightarrow> (prs, slept))"

subsection \<open>\<^verbatim>\<open>fetch_merged_prs_for_repo\<close> (fetch\_merge\_dates.py)\<close>

record merged_pr =
  m_merged_at :: int
  m_number :: int
  m_title :: string
  m_repo :: string

text \<open>
  The inner \<^verbatim>\<open>for pr in prs\<close> loop: a pull request without a merge timestamp or
  with one that fails to parse is skipped; one merged at or after the cutoff is
  appended; the first one merged before the cutoff makes the function return.
\<close>

datatype scan = Continue "merged_pr list" | Stop "merged_pr list"

definition merged_entry :: "string \<Rightarrow> pr \<Rightarrow> int \<Rightarrow> merged_pr" where
  "merged_entry repo_name p merged_at =
     \<lparr>m_merged_at = merged_at, m_number = pr_number p, m_title = pr_title p,
      m_repo = repo_name\<rparr>"

fun scan_prs :: "int \<Rightarrow> string \<Rightarrow> pr list \<Rightarrow> merged_pr list \<Rightarrow> scan" where
  "scan_prs cutoff_date repo_name [] merged_prs = Continue merged_prs"
| "scan_prs cutoff_date repo_name (p # ps) merged_prs =
     (case pr_merged_at p of
        Null \<Rightarrow> scan_prs cutoff_date repo_name ps merged_prs
      | Malformed \<Rightarrow> scan_prs cutoff_date repo_name ps merged_prs
      | Timestamp merged_at \<Rightarrow>
          if merged_at \<ge> cutoff_date then
            scan_prs cutoff_date repo_name ps
              (merged_prs @ [merged_entry repo_name p merged_at])
          else Stop merged_prs)"

text \<open>
  The \<^verbatim>\<open>while page <= max_pages\<close> loop. A 403 response sleeps and continues with the
  same page, so the loop need not end: not returning is the value \<open>None\<close>.
\<close>

partial_function (option) merged_prs_loop ::
  "nat \<Rightarrow> int \<Rightarrow> string \<Rightarrow> pr response stream \<Rightarrow> nat \<Rightarrow> merged_pr list \<Rightarrow> nat
     \<Rightarrow> (merged_pr list \<times> nat) option" where
  "merged_prs_loop max_pages cutoff_date repo_name srv page merged_prs slept =
     (if page \<le> max_pages then
        (case shd srv of
           Timeout \<Rightarrow> Some (merged_prs, slept)
         | RequestException \<Rightarrow> Some (merged_prs, slept)
         | Response st prs nxt \<Rightarrow>
             if st = 403 then
               merged_prs_loop max_pages cutoff_date repo_name (stl srv) page merged_prs
                 (slept + 60)
             else if st = 404 then Some ([], slept)
             else if st \<noteq> 200 then Some ([], slept)
             else if prs = [] then Some (merged_prs, slept)
             else (case scan_prs cutoff_date repo_name prs merged_prs of
                     Stop found \<Rightarrow> Some (found, slept)
                   | Continue found \<Rightarrow>
                       if nxt = None then Some (found, slept)
                       else merged_prs_loop max_pages cutoff_date repo_name (stl srv)
                              (page + 1) found (slept + 1)))
      else Some (merged_prs, slept))"

definition fetch_merged_prs_for_repo ::
  "int \<Rightarrow> string \<Rightarrow> string \<Rightarrow> int \<Rightarrow> pr response stream
     \<Rightarrow> (merged_pr list \<times> nat) option" where
  "fetch_merged_prs_for_repo now org_name repo_name days srv =
     merged_prs_loop 10 (now - days * 86400) repo_name srv 1 [] 0"

section \<open>Strings\<close>

text \<open>
  The methods of Python's \<^verbatim>\<open>str\<close> that the pipeline uses, on ASCII strings:
  \<^verbatim>\<open>strip(chars)\<close>, \<^verbatim>\<open>lstrip(chars)\<close>, \<^verbatim>\<open>split(sep)\<close>, \<^verbatim>\<open>lower()\<close>,
  \<^verbatim>\<open>replace(old, new)\<close> for single characters, \<^verbatim>\<open>startswith\<close>,
  \<^verbatim>\<open>endswith\<close> and the substring test \<^verbatim>\<open>sub in s\<close>.
\<close>

definition lstrip_chars :: "(char \<Rightarrow> bool) \<Rightarrow> string \<Rightarrow> string" where
  "lstrip_chars P s = dropWhile P s"

definition strip_chars :: "(char \<Rightarrow> bool) \<Rightarrow> string \<Rightarrow> string" where
  "strip_chars P s = rev (dropWhile P (rev (dropWhile P s)))"

fun split_on :: "char \<Rightarrow> string \<Rightarrow> string list" where
  "split_on sep [] = [[]]"
| "split_on sep (c # cs) =
     (if c = sep then [] # split_on sep cs
      else (case split_on sep cs of
              [] \<Rightarrow> [[c]]
            | w # ws \<Rightarrow> (c # w) # ws))"

definition is_upper :: "char \<Rightarrow> bool" where
  "is_upper c = (65 \<le> (of_char c :: nat) \<and> (of_char c :: nat) \<le> 90)"

definition lower_char :: "char \<Rightarrow> char" where
  "lower_char c = (if is_upper c then char_of ((of_char c :: nat) + 32) else c)"

definition lower :: "string \<Rightarrow> string" where
  "lower s = map lower_char s"

definition replace_char :: "char \<Rightarrow> char \<Rightarrow> string \<Rightarrow> string" where
  "replace_char old new s = map (\<lambda>c. if c = old then new else c) s"

fun startswith :: "string \<Rightarrow> string \<Rightarrow> bool" where
  "startswith s [] = True"
| "startswith [] (p # ps) = False"
| "startswith (c # cs) (p # ps) = (c = p \<and> startswith cs ps)"

definition endswith :: "string \<Rightarrow> string \<Rightarrow> bool" where
  "endswith s suffix = startswith (rev s) (rev suffix)"

fun contains :: "string \<Rightarrow> string \<Rightarrow> bool" where
  "contains [] sub = (sub = [])"
| "contains (c # cs) sub = (startswith (c # cs) sub \<or> contains cs sub)"

text \<open>The ASCII characters that \<^verbatim>\<open>str.strip()\<close> removes.\<close>

definition is_space :: "char \<Rightarrow> bool" where
  "is_space c =
     ((9 \<le> (of_char c :: nat) \<and> (of_char c :: nat) \<le> 13) \<or>
      (28 \<le> (of_char c :: nat) \<and> (of_char c :: nat) \<le> 32))"

section \<open>The identifier normalizer\<close>

subsection \<open>\<^verbatim>\<open>extract_org_name_from_url\<close> (github\_service.py)\<close>

text \<open>
  \<^verbatim>\<open>urlparse\<close> is the standard library's: the URL is given by the two components
  the function reads, \<^verbatim>\<open>netloc\<close> and \<^verbatim>\<open>path\<close>; \<open>None\<close> is a missing or
  empty URL.
\<close>

record parsed_url =
  url_netloc :: string
  url_path :: string

definition path_parts_of :: "string \<Rightarrow> string list" where
  "path_parts_of p =
     filter (\<lambda>part. part \<noteq> []) (split_on CHR ''/'' (strip_chars (\<lambda>c. c = CHR ''/'') p))"

definition extract_org_name_from_url :: "parsed_url option \<Rightarrow> string option" where
  "extract_org_name_from_url url =
     (case url of
        None \<Rightarrow> None
      | Some parsed \<Rightarrow>
          (let path_parts = path_parts_of (url_path parsed) in
           if path_parts = [] then None
           else
             (let host = lower (url_netloc parsed) in
              if \<not> contains host ''github.com'' then Some (last path_parts)
              else if lower (hd path_parts) = ''orgs'' \<and> length path_parts \<ge> 2
                   then Some (path_parts ! 1)
              else Some (hd path_parts))))"

subsection \<open>\<^verbatim>\<open>get_organization_list\<close> (helper.py)\<close>

text \<open>A row of \<^verbatim>\<open>gsoc_organizations\<close>, as the query selects it.\<close>

record gsoc_organization =
  g_id :: int
  g_name :: "string option"
  g_github_url :: "parsed_url option"
  g_slug :: "string option"

record normalized_org =
  o_id :: int
  o_display_name :: string
  o_github_slug :: string

definition truthy_str :: "string option \<Rightarrow> bool" where
  "truthy_str v = (case v of None \<Rightarrow> False | Some s \<Rightarrow> s \<noteq> [])"

text \<open>\<^verbatim>\<open>name or slug or "Unknown"\<close>\<close>

definition display_name_of :: "gsoc_organization \<Rightarrow> string" where
  "display_name_of org =
     (if truthy_str (g_name org) then the (g_name org)
      else if truthy_str (g_slug org) then the (g_slug org)
      else ''Unknown'')"

text \<open>Lines 35 to 40: the handle from the URL, else the last segment of the slug.\<close>

definition derive_slug :: "gsoc_organization \<Rightarrow> string option" where
  "derive_slug org =
     (let github_slug =
            (if g_github_url org \<noteq> None then extract_org_name_from_url (g_github_url org)
             else None)
      in if \<not> truthy_str github_slug \<and> truthy_str (g_slug org) then
           (let candidate = strip_chars (\<lambda>c. c = CHR ''/'')
                              (strip_chars is_space (the (g_slug org)))
            in Some (last (split_on CHR ''/'' candidate)))
         else github_slug)"

text \<open>Lines 42 to 45: the post-processing of a derived handle.\<close>

definition postprocess_slug :: "string \<Rightarrow> string" where
  "postprocess_slug github_slug =
     (let s = lower (replace_char CHR '' '' CHR ''-''
                       (lstrip_chars (\<lambda>c. c = CHR ''@'') github_slug))
      in if endswith s ''.git'' then take (length s - 4) s else s)"

definition normalize_slug :: "gsoc_organization \<Rightarrow> string option" where
  "normalize_slug org =
     (let github_slug = derive_slug org
      in if truthy_str github_slug then Some (postprocess_slug (the github_slug))
         else github_slug)"

fun normalize_loop ::
  "gsoc_organization list \<Rightarrow> string list \<Rightarrow> normalized_org list \<Rightarrow> nat
     \<Rightarrow> normalized_org list \<times> nat" where
  "normalize_loop [] seen_slugs normalized_orgs skipped = (normalized_orgs, skipped)"
| "normalize_loop (org # orgs) seen_slugs normalized_orgs skipped =
     (let github_slug = normalize_slug org in
      if \<not> truthy_str github_slug then
        normalize_loop orgs seen_slugs normalized_orgs (skipped + 1)
      else if the github_slug \<in> set seen_slugs then
        normalize_loop orgs seen_slugs normalized_orgs skipped
      else
        normalize_loop orgs (the github_slug # seen_slugs)
          (normalized_orgs @
             [\<lparr>o_id = g_id org, o_display_name = display_name_of org,
               o_github_slug = the github_slug\<rparr>])
          skipped)"

text \<open>
  The query filters by \<^verbatim>\<open>id >= start_from_id\<close> when a start is given and orders by
  id; the list is filtered once more after the normalization.
\<close>

definition get_organization_list ::
  "int option \<Rightarrow> gsoc_organization list \<Rightarrow> normalized_org list" where
  "get_organization_list start_from_id table =
     (let orgs = sort_key g_id
                   (case start_from_id of
                      None \<Rightarrow> table
                    | Some start \<Rightarrow> filter (\<lambda>org. g_id org \<ge> start) table);
          normalized_orgs = fst (normalize_loop orgs [] [] 0)
      in case start_from_id of
           None \<Rightarrow> normalized_orgs
         | Some start \<Rightarrow> filter (\<lambda>org. o_id org \<ge> start) normalized_orgs)"

section \<open>Metrics\<close>

subsection \<open>\<^verbatim>\<open>calculate_metrics\<close> (github\_service.py)\<close>

text \<open>
  \<^verbatim>\<open>pr.get("merged_at")\<close> is truthy for every non-empty string, parsable or not.
  Python's floats are idealised as rationals; \<^verbatim>\<open>round(x, 3)\<close> rounds to the nearest
  multiple of \<open>1/1000\<close>, a tie to the even one.
\<close>

definition is_merged :: "pr \<Rightarrow> bool" where
  "is_merged p = (pr_merged_at p \<noteq> Null)"

definition round_half_even :: "rat \<Rightarrow> int" where
  "round_half_even q =
     (let f = \<lfloor>q\<rfloor>; d = q - of_int f
      in if d < 1 / 2 then f
         else if d > 1 / 2 then f + 1
         else if even f then f else f + 1)"

definition round3 :: "rat \<Rightarrow> rat" where
  "round3 q = of_int (round_half_even (q * 1000)) / 1000"

record metrics =
  mt_total_prs :: int
  mt_merged_prs :: int
  mt_merge_frequency :: rat

text \<open>
  The \<^verbatim>\<open>for repo in repos\<close> loop; \<open>api i\<close> is the server met by the call of
  \<^verbatim>\<open>fetch_repo_pr_data\<close> for the \<open>i\<close>-th repository.
\<close>

fun metrics_loop ::
  "(nat \<Rightarrow> pr response stream) \<Rightarrow> nat \<Rightarrow> repo list \<Rightarrow> int \<Rightarrow> int \<Rightarrow> int \<times> int" where
  "metrics_loop api i [] total_prs merged_prs = (total_prs, merged_prs)"
| "metrics_loop api i (r # repos) total_prs merged_prs =
     (let prs = fst (fetch_repo_pr_data (r_owner_login r) (r_name r) (api i))
      in metrics_loop api (i + 1) repos
           (total_prs + int (length prs))
           (merged_prs + int (length (filter is_merged prs))))"

definition calculate_metrics :: "(nat \<Rightarrow> pr response stream) \<Rightarrow> repo list \<Rightarrow> metrics" where
  "calculate_metrics api repos =
     (case metrics_loop api 0 repos 0 0 of
        (total_prs, merged_prs) \<Rightarrow>
          \<lparr>mt_total_prs = total_prs, mt_merged_prs = merged_prs,
           mt_merge_frequency =
             round3 (if total_prs > 0 then of_int merged_prs / of_int total_prs else 0)\<rparr>)"

section \<open>Exceptions\<close>

text \<open>
  The exceptions the batch code distinguishes. \<^verbatim>\<open>except Exception\<close> catches every
  one but an interrupt, which derives from \<^verbatim>\<open>BaseException\<close> only.
\<close>

datatype exn = OperationalError | FuturesTimeoutError | OtherException | KeyboardInterrupt

definition is_exception :: "exn \<Rightarrow> bool" where
  "is_exception e = (e \<noteq> KeyboardInterrupt)"

section \<open>Merge-date ingestion (fetch\_merge\_dates.py)\<close>

record merge_date_row =
  md_organization_slug :: string
  md_organization_name :: string
  md_merge_date :: int
  md_merged_at :: int
  md_repository_name :: string
  md_pull_request_number :: int
  md_created_at :: int

text \<open>\<^verbatim>\<open>merged_at.date()\<close> of a UTC timestamp: the day number since the epoch.\<close>

definition date_of :: "int \<Rightarrow> int" where
  "date_of merged_at = merged_at div 86400"

definition natural_key :: "merge_date_row \<Rightarrow> string \<times> int \<times> int \<times> string" where
  "natural_key row =
     (md_organization_slug row, md_merge_date row, md_pull_request_number row,
      md_repository_name row)"

text \<open>
  The \<^verbatim>\<open>for pr in all_merged_prs\<close> loop of \<^verbatim>\<open>fetch_merge_dates_for_organization\<close>.
  The session is made with \<^verbatim>\<open>autoflush=False\<close> (database.py), so the lookup reads
  the committed table only: rows added earlier in the same loop are pending and not
  seen by it.
\<close>

fun check_loop ::
  "merge_date_row list \<Rightarrow> string \<Rightarrow> string \<Rightarrow> int \<Rightarrow> merged_pr list
     \<Rightarrow> merge_date_row list \<Rightarrow> nat \<Rightarrow> merge_date_row list \<times> nat" where
  "check_loop table org_slug org_name utcnow [] added count = (added, count)"
| "check_loop table org_slug org_name utcnow (p # prs) added count =
     (let day = date_of (m_merged_at p);
          existing = find (\<lambda>row. md_organization_slug row = org_slug \<and>
                                 md_merge_date row = day \<and>
                                 md_pull_request_number row = m_number p \<and>
                                 md_repository_name row = m_repo p) table
      in if existing = None then
           check_loop table org_slug org_name utcnow prs
             (added @ [\<lparr>md_organization_slug = org_slug, md_organization_name = org_name,
                        md_merge_date = day, md_merged_at = m_merged_at p,
                        md_repository_name = m_repo p,
                        md_pull_request_number = m_number p,
                        md_created_at = utcnow\<rparr>])
             (count + 1)
         else check_loop table org_slug org_name utcnow prs added count)"

text \<open>
  What the database does during the \<^verbatim>\<open>with SessionLocal()\<close> block: nothing wrong,
  a lookup that raises, or a commit that raises.
\<close>

datatype session_fault = Healthy | LookupRaises exn | CommitRaises exn

text \<open>
  Lines 151 to 193, the \<^verbatim>\<open>with SessionLocal()\<close> block: the result is the count
  returned or the exception raised, and the committed table.
\<close>

definition store_merge_dates ::
  "session_fault \<Rightarrow> merge_date_row list \<Rightarrow> string \<Rightarrow> string \<Rightarrow> int \<Rightarrow> merged_pr list
     \<Rightarrow> (exn + nat) \<times> merge_date_row list" where
  "store_merge_dates fault table org_slug org_name utcnow all_merged_prs =
     (case fault of
        LookupRaises e \<Rightarrow>
          if all_merged_prs = [] then (Inr 0, table) else (Inl e, table)
      | CommitRaises e \<Rightarrow>
          (case check_loop table org_slug org_name utcnow all_merged_prs [] 0 of
             (added, count) \<Rightarrow>
               if count > 0 then
                 (if is_exception e then (Inr 0, table) else (Inl e, table))
               else (Inr count, table))
      | Healthy \<Rightarrow>
          (case check_loop table org_slug org_name utcnow all_merged_prs [] 0 of
             (added, count) \<Rightarrow>
               if count > 0 then (Inr count, table @ added) else (Inr count, table)))"

text \<open>
  The \<^verbatim>\<open>for repo in repos\<close> loop; \<open>pr_api i\<close> is the server met by the call of
  \<^verbatim>\<open>fetch_merged_prs_for_repo\<close> for the \<open>i\<close>-th repository.
\<close>

fun collect_merged_prs ::
  "int \<Rightarrow> string \<Rightarrow> int \<Rightarrow> (nat \<Rightarrow> pr response stream) \<Rightarrow> nat \<Rightarrow> repo list
     \<Rightarrow> merged_pr list \<Rightarrow> merged_pr list option" where
  "collect_merged_prs now org_slug days pr_api i [] all_merged_prs = Some all_merged_prs"
| "collect_merged_prs now org_slug days pr_api i (r # repos) all_merged_prs =
     (case fetch_merged_prs_for_repo now org_slug (r_name r) days (pr_api i) of
        None \<Rightarrow> None
      | Some (merged_prs, slept) \<Rightarrow>
          collect_merged_prs now org_slug days pr_api (i + 1) repos
            (all_merged_prs @ merged_prs))"

record org_env =
  e_now :: int
  e_repo_srv :: "repo response stream"
  e_pr_api :: "nat \<Rightarrow> pr response stream"
  e_fault :: session_fault

definition fetch_merge_dates_for_organization ::
  "org_env \<Rightarrow> merge_date_row list \<Rightarrow> string \<Rightarrow> string \<Rightarrow> int
     \<Rightarrow> ((exn + nat) \<times> merge_date_row list) option" where
  "fetch_merge_dates_for_organization env table org_slug org_name days =
     (let repos = fst (fetch_org_repos org_slug (e_repo_srv env)) in
      if repos = [] then Some (Inr 0, table)
      else
        (case collect_merged_prs (e_now env) org_slug days (e_pr_api env) 0 (take 5 repos) [] of
           None \<Rightarrow> None
         | Some all_merged_prs \<Rightarrow>
             if all_merged_prs = [] then Some (Inr 0, table)
             else Some (store_merge_dates (e_fault env) table org_slug org_name (e_now env)
                          all_merged_prs)))"

text \<open>
  The \<^verbatim>\<open>for slug, name in orgs\<close> loop of \<^verbatim>\<open>fetch_all_merge_dates\<close>, over any
  per-organization step: \<open>per_org i\<close> is the call for the \<open>i\<close>-th organization. The
  log lists, per organization visited, its slug and what its call did.
\<close>

fun merge_dates_loop ::
  "(nat \<Rightarrow> merge_date_row list \<Rightarrow> string \<Rightarrow> string \<Rightarrow> ((exn + nat) \<times> merge_date_row list) option)
     \<Rightarrow> nat \<Rightarrow> (string \<times> string) list \<Rightarrow> merge_date_row list \<Rightarrow> nat
     \<Rightarrow> (string \<times> (exn + nat)) list
     \<Rightarrow> (exn + nat \<times> (string \<times> (exn + nat)) list \<times> merge_date_row list) option" where
  "merge_dates_loop per_org i [] table total_merges visited =
     Some (Inr (total_merges, visited, table))"
| "merge_dates_loop per_org i ((slug, name) # orgs) table total_merges visited =
     (case per_org i table slug name of
        None \<Rightarrow> None
      | Some (Inr count, table') \<Rightarrow>
          merge_dates_loop per_org (i + 1) orgs table' (total_merges + count)
            (visited @ [(slug, Inr count)])
      | Some (Inl e, table') \<Rightarrow>
          if is_exception e then
            merge_dates_loop per_org (i + 1) orgs table' total_merges
              (visited @ [(slug, Inl e)])
          else Some (Inl e))"

definition fetch_all_merge_dates ::
  "(nat \<Rightarrow> org_env) \<Rightarrow> int \<Rightarrow> (string \<times> string) list \<Rightarrow> merge_date_row list
     \<Rightarrow> (exn + nat \<times> (string \<times> (exn + nat)) list \<times> merge_date_row list) option" where
  "fetch_all_merge_dates envs days orgs table =
     (if orgs = [] then Some (Inr (0, [], table))
      else merge_dates_loop
             (\<lambda>i tbl slug name. fetch_merge_dates_for_organization (envs i) tbl slug name days)
             0 orgs table 0 [])"

section \<open>The metrics updater (update\_github\_metrics.py)\<close>

text \<open>The dictionary returned by \<^verbatim>\<open>fetch_github_org_data\<close>.\<close>

record org_data =
  d_followers :: "int option"
  d_public_repos :: "int option"
  d_bio :: "string option"
  d_fetched_at :: int
  d_total_prs :: int
  d_merged_prs :: int
  d_merge_frequency :: rat

text \<open>A row of \<^verbatim>\<open>github_metrics\<close> (the snapshot) and of \<^verbatim>\<open>historical_metrics\<close>.\<close>

record github_metrics_row =
  gm_name :: string
  gm_slug :: string
  gm_github_followers :: "int option"
  gm_github_repos :: "int option"
  gm_github_bio :: "string option"
  gm_fetched_at :: int
  gm_pull_requests :: int
  gm_merged_prs :: int
  gm_merge_frequency :: rat

record historical_metrics_row =
  hm_organization_slug :: string
  hm_organization_name :: string
  hm_merge_frequency :: rat
  hm_total_prs :: int
  hm_merged_prs :: int
  hm_recorded_at :: int

text \<open>The committed contents of the two tables; the snapshot table is keyed by slug.\<close>

record database =
  github_metrics :: "string \<rightharpoonup> github_metrics_row"
  historical_metrics :: "historical_metrics_row list"

text \<open>
  Lines 56 to 94, one session that commits: the snapshot row of the slug is updated in
  place or created, the historical row is added, and one \<^verbatim>\<open>session.commit()\<close>
  writes both.
\<close>

definition upsert_snapshot ::
  "(string \<rightharpoonup> github_metrics_row) \<Rightarrow> string \<Rightarrow> string \<Rightarrow> org_data
     \<Rightarrow> (string \<rightharpoonup> github_metrics_row)" where
  "upsert_snapshot tbl display_name github_slug data =
     (case tbl github_slug of
        Some existing \<Rightarrow>
          tbl(github_slug \<mapsto>
            existing\<lparr>gm_name := display_name,
                     gm_github_followers := d_followers data,
                     gm_github_repos := d_public_repos data,
                     gm_github_bio := d_bio data,
                     gm_fetched_at := d_fetched_at data,
                     gm_pull_requests := d_total_prs data,
                     gm_merged_prs := d_merged_prs data,
                     gm_merge_frequency := d_merge_frequency data\<rparr>)
      | None \<Rightarrow>
          tbl(github_slug \<mapsto>
            \<lparr>gm_name = display_name, gm_slug = github_slug,
             gm_github_followers = d_followers data,
             gm_github_repos = d_public_repos data,
             gm_github_bio = d_bio data,
             gm_fetched_at = d_fetched_at data,
             gm_pull_requests = d_total_prs data,
             gm_merged_prs = d_merged_prs data,
             gm_merge_frequency = d_merge_frequency data\<rparr>))"

definition historical_entry :: "string \<Rightarrow> string \<Rightarrow> org_data \<Rightarrow> int \<Rightarrow> historical_metrics_row" where
  "historical_entry display_name github_slug data utcnow =
     \<lparr>hm_organization_slug = github_slug, hm_organization_name = display_name,
      hm_merge_frequency = d_merge_frequency data, hm_total_prs = d_total_prs data,
      hm_merged_prs = d_merged_prs data, hm_recorded_at = utcnow\<rparr>"

definition committed :: "database \<Rightarrow> string \<Rightarrow> string \<Rightarrow> org_data \<Rightarrow> int \<Rightarrow> database" where
  "committed db display_name github_slug data utcnow =
     \<lparr>github_metrics = upsert_snapshot (github_metrics db) display_name github_slug data,
      historical_metrics =
        historical_metrics db @ [historical_entry display_name github_slug data utcnow]\<rparr>"

text \<open>How the persist step of one organization ended.\<close>

datatype persist_status =
    Updated
  | Aborted exn
  | Exhausted

record persist_result =
  p_status :: persist_status
  p_db :: database
  p_attempts :: nat
  p_slept :: nat

text \<open>
  The \<^verbatim>\<open>for attempt in range(retries)\<close> loop, with \<^verbatim>\<open>retries = 3\<close>.
  \<open>fault attempt\<close> is the exception that the session of that attempt raises before
  its commit completes, if any; a session that raises commits nothing. An exception
  that \<^verbatim>\<open>except Exception\<close> does not catch leaves the function.
\<close>

function persist_loop ::
  "nat \<Rightarrow> (nat \<Rightarrow> exn option) \<Rightarrow> database \<Rightarrow> string \<Rightarrow> string \<Rightarrow> org_data \<Rightarrow> int
     \<Rightarrow> nat \<Rightarrow> nat \<Rightarrow> exn + persist_result" where
  "persist_loop retries fault db display_name github_slug data utcnow attempt slept =
     (if attempt < retries then
        (case fault attempt of
           None \<Rightarrow>
             Inr \<lparr>p_status = Updated,
                  p_db = committed db display_name github_slug data utcnow,
                  p_attempts = attempt + 1, p_slept = slept\<rparr>
         | Some e \<Rightarrow>
             if e = OperationalError then
               persist_loop retries fault db display_name github_slug data utcnow
                 (attempt + 1) (slept + 5)
             else if is_exception e then
               Inr \<lparr>p_status = Aborted e, p_db = db, p_attempts = attempt + 1,
                    p_slept = slept\<rparr>
             else Inl e)
      else Inr \<lparr>p_status = Exhausted, p_db = db, p_attempts = attempt, p_slept = slept\<rparr>)"
  by pat_completeness auto
termination
  by (relation "measure (\<lambda>(retries, fault, db, display_name, github_slug, data, utcnow,
        attempt, slept). retries - attempt)") auto

declare persist_loop.simps [simp del]

definition persist ::
  "(nat \<Rightarrow> exn option) \<Rightarrow> database \<Rightarrow> string \<Rightarrow> string \<Rightarrow> org_data \<Rightarrow> int
     \<Rightarrow> exn + persist_result" where
  "persist fault db display_name github_slug data utcnow =
     persist_loop 3 fault db display_name github_slug data utcnow 0 0"

text \<open>What the loop did with one organization.\<close>

datatype org_outcome =
    FetchTimedOut
  | FetchFailed exn
  | NoData
  | Persisted persist_status

text \<open>
  The \<^verbatim>\<open>for org in orgs\<close> loop. \<open>fetch org\<close> is the outcome of
  \<^verbatim>\<open>future.result(timeout=600)\<close> for that organization: an exception, no data, or
  the data; \<open>faults org\<close> gives the session faults of its persist step.
\<close>

fun update_loop ::
  "(normalized_org \<Rightarrow> exn + org_data option) \<Rightarrow> (normalized_org \<Rightarrow> nat \<Rightarrow> exn option) \<Rightarrow> int
     \<Rightarrow> normalized_org list \<Rightarrow> database \<Rightarrow> (normalized_org \<times> org_outcome) list
     \<Rightarrow> exn + (normalized_org \<times> org_outcome) list \<times> database" where
  "update_loop fetch faults utcnow [] db visited = Inr (visited, db)"
| "update_loop fetch faults utcnow (org # orgs) db visited =
     (case fetch org of
        Inl e \<Rightarrow>
          if e = FuturesTimeoutError then
            update_loop fetch faults utcnow orgs db (visited @ [(org, FetchTimedOut)])
          else if is_exception e then
            update_loop fetch faults utcnow orgs db (visited @ [(org, FetchFailed e)])
          else Inl e
      | Inr None \<Rightarrow> update_loop fetch faults utcnow orgs db (visited @ [(org, NoData)])
      | Inr (Some data) \<Rightarrow>
          (case persist (faults org) db (o_display_name org) (o_github_slug org) data utcnow of
             Inl e \<Rightarrow> Inl e
           | Inr res \<Rightarrow>
               update_loop fetch faults utcnow orgs (p_db res)
                 (visited @ [(org, Persisted (p_status res))])))"

text \<open>\<^verbatim>\<open>if start_from_id:\<close> holds for an identifier other than \<open>None\<close> and \<open>0\<close>.\<close>

definition update_github_data ::
  "int option \<Rightarrow> gsoc_organization list \<Rightarrow> (normalized_org \<Rightarrow> exn + org_data option)
     \<Rightarrow> (normalized_org \<Rightarrow> nat \<Rightarrow> exn option) \<Rightarrow> int \<Rightarrow> database
     \<Rightarrow> exn + (normalized_org \<times> org_outcome) list \<times> database" where
  "update_github_data start_from_id table fetch faults utcnow db =
     (let orgs = get_organization_list start_from_id table;
          orgs = (case start_from_id of
                    None \<Rightarrow> orgs
                  | Some start \<Rightarrow>
                      if start \<noteq> 0 then filter (\<lambda>org. o_id org \<ge> start) orgs else orgs)
      in update_loop fetch faults utcnow orgs db [])"

section \<open>Vocabulary of the statements\<close>

text \<open>
  Predicates on responses used to say that a walk reaches a given request: a 403
  response, a response after which \<^verbatim>\<open>fetch_org_repos\<close> and
  \<^verbatim>\<open>fetch_repo_pr_data\<close> go on (403, or 200 with a next link), a response after
  which \<^verbatim>\<open>fetch_merged_prs_for_repo\<close> goes on (403, or a non-empty page with a
  next link and no pull request merged before the cutoff), and a 200 response.
\<close>

definition is_403 :: "'a response \<Rightarrow> bool" where
  "is_403 r = (case r of Response st d n \<Rightarrow> st = 403 | _ \<Rightarrow> False)"

definition keeps_walking :: "'a response \<Rightarrow> bool" where
  "keeps_walking r =
     (case r of Response st d n \<Rightarrow> st = 403 \<or> (st = 200 \<and> truthy n) | _ \<Rightarrow> False)"

definition never_stops :: "int \<Rightarrow> pr list \<Rightarrow> bool" where
  "never_stops cutoff_date prs =
     list_all (\<lambda>p. case pr_merged_at p of Timestamp t \<Rightarrow> t \<ge> cutoff_date | _ \<Rightarrow> True) prs"

definition keeps_scanning :: "int \<Rightarrow> pr response \<Rightarrow> bool" where
  "keeps_scanning cutoff_date r =
     (case r of
        Response st prs n \<Rightarrow>
          st = 403 \<or> (st = 200 \<and> prs \<noteq> [] \<and> n \<noteq> None \<and> never_stops cutoff_date prs)
      | _ \<Rightarrow> False)"

definition is_page :: "'a response \<Rightarrow> bool" where
  "is_page r = (case r of Response st d n \<Rightarrow> st = 200 | _ \<Rightarrow> False)"

text \<open>Sample data for the concrete instances.\<close>

definition pr1 :: pr where
  "pr1 = \<lparr>pr_number = 1, pr_title = ''first'', pr_merged_at = Timestamp 50000\<rparr>"

definition repo1 :: repo where
  "repo1 = \<lparr>r_name = ''core'', r_owner_login = ''acme'', r_stargazers_count = Some 7\<rparr>"

text \<open>
  The merge timestamp of a pull request that has one, and a pull request merged at a
  given time.
\<close>

definition timestamp_of :: "pr \<Rightarrow> int" where
  "timestamp_of p = (case pr_merged_at p of Timestamp t \<Rightarrow> t | _ \<Rightarrow> 0)"

definition sample_pr :: "int \<Rightarrow> int \<Rightarrow> pr" where
  "sample_pr n t = \<lparr>pr_number = n, pr_title = ''change'', pr_merged_at = Timestamp t\<rparr>"

text \<open>
  The handle before its \<^verbatim>\<open>.git\<close> suffix is removed (helper.py, line 43), and what the loop
  of \<^verbatim>\<open>get_organization_list\<close> emits: a non-empty post-processed handle.
\<close>

definition cleaned :: "string \<Rightarrow> string" where
  "cleaned raw = lower (replace_char CHR '' '' CHR ''-'' (lstrip_chars (\<lambda>c. c = CHR ''@'') raw))"

definition well_formed_slug :: "string \<Rightarrow> bool" where
  "well_formed_slug h = (h \<noteq> [] \<and> (\<exists>raw. h = postprocess_slug raw))"

definition sample_table :: "gsoc_organization list" where
  "sample_table =
     [\<lparr>g_id = 3, g_name = Some ''Acme'',
       g_github_url = Some \<lparr>url_netloc = ''github.com'', url_path = ''/orgs/Acme-Org/''\<rparr>,
       g_slug = None\<rparr>,
      \<lparr>g_id = 5, g_name = None, g_github_url = None, g_slug = Some '' /@My Org.git/ ''\<rparr>]"

text \<open>
  Sample data for the persist step: the data fetched for one organization and an
  empty database.
\<close>

definition sample_data :: org_data where
  "sample_data =
     \<lparr>d_followers = Some 12, d_public_repos = Some 4, d_bio = None, d_fetched_at = 86400,
      d_total_prs = 3, d_merged_prs = 2, d_merge_frequency = 667 / 1000\<rparr>"

definition empty_db :: database where
  "empty_db = \<lparr>github_metrics = Map.empty, historical_metrics = []\<rparr>"

text \<open>
  Sample data for the batch loops: three organizations, and the environments of two
  calls of \<^verbatim>\<open>fetch_merge_dates_for_organization\<close>, one whose database lookup
  raises and one whose organization is not found.
\<close>

definition batch_table :: "gsoc_organization list" where
  "batch_table =
     [\<lparr>g_id = 1, g_name = Some ''Alpha'', g_github_url = None, g_slug = Some ''alpha''\<rparr>,
      \<lparr>g_id = 2, g_name = Some ''Beta'', g_github_url = None, g_slug = Some ''beta''\<rparr>,
      \<lparr>g_id = 3, g_name = Some ''Gamma'', g_github_url = None, g_slug = Some ''gamma''\<rparr>]"

definition batch_fetch :: "normalized_org \<Rightarrow> exn + org_data option" where
  "batch_fetch org =
     (if o_github_slug org = ''alpha'' then Inl FuturesTimeoutError
      else if o_github_slug org = ''beta'' then Inr (Some sample_data)
      else Inr None)"

definition failing_env :: org_env where
  "failing_env =
     \<lparr>e_now = 100000,
      e_repo_srv = Response 200 [repo1] None ## sconst Timeout,
      e_pr_api = (\<lambda>i. Response 200 [pr1] None ## sconst Timeout),
      e_fault = LookupRaises OperationalError\<rparr>"

definition not_found_env :: org_env where
  "not_found_env =
     \<lparr>e_now = 100000,
      e_repo_srv = Response 404 [] None ## sconst Timeout,
      e_pr_api = (\<lambda>i. sconst Timeout),
      e_fault = Healthy\<rparr>"

text \<open>
  The natural key that a merged pull request gets for an organization, the row made
  for it, and the batch \<^verbatim>\<open>all_merged_prs\<close> that a run of
  \<^verbatim>\<open>fetch_merge_dates_for_organization\<close> gathers before it opens its session
  (\<open>None\<close> when the gathering does not return).
\<close>

definition key_of :: "string \<Rightarrow> merged_pr \<Rightarrow> string \<times> int \<times> int \<times> string" where
  "key_of org_slug p = (org_slug, date_of (m_merged_at p), m_number p, m_repo p)"

definition row_of :: "string \<Rightarrow> string \<Rightarrow> int \<Rightarrow> merged_pr \<Rightarrow> merge_date_row" where
  "row_of org_slug org_name utcnow p =
     \<lparr>md_organization_slug = org_slug, md_organization_name = org_name,
      md_merge_date = date_of (m_merged_at p), md_merged_at = m_merged_at p,
      md_repository_name = m_repo p, md_pull_request_number = m_number p,
      md_created_at = utcnow\<rparr>"




definition row_one :: "int \<Rightarrow> merge_date_row" where
  "row_one utcnow =
     \<lparr>md_organization_slug = ''acme'', md_organization_name = ''Acme'', md_merge_date = 1,
      md_merged_at = 90000, md_repository_name = ''core'', md_pull_request_number = 1,
      md_created_at = utcnow\<rparr>"


text \<open>
  Sample data: an organization known by its profile URL, one known by a URL on another
  host, and the environment of a call of \<^verbatim>\<open>fetch_merge_dates_for_organization\<close>
  whose repository answers every pull-request request with 403.
\<close>

definition github_org :: gsoc_organization where
  "github_org =
     \<lparr>g_id = 3, g_name = Some ''Acme'',
      g_github_url =
        Some \<lparr>url_netloc = ''github.com'', url_path = ''/orgs/Acme-Org/repositories''\<rparr>,
      g_slug = None\<rparr>"

definition gitlab_org :: gsoc_organization where
  "gitlab_org =
     \<lparr>g_id = 4, g_name = Some ''Group'',
      g_github_url = Some \<lparr>url_netloc = ''gitlab.com'', url_path = ''/group/Project.git/''\<rparr>,
      g_slug = None\<rparr>"

definition throttled_env :: org_env where
  "throttled_env =
     \<lparr>e_now = 100000,
      e_repo_srv = Response 200 [repo1] None ## sconst Timeout,
      e_pr_api = (\<lambda>i. sconst (Response 403 [] None)),
      e_fault = Healthy\<rparr>"

section \<open>One step of each pagination loop\<close>

lemma is_page_simps [simp]:
  "is_page (Response st d n) = (st = 200)" "\<not> is_page Timeout" "\<not> is_page RequestException"
  by (simp_all add: is_page_def)

lemma org_repos_loop_step:
  "org_repos_loop max_pages (r ## srv) url page_count repos slept =
     (if truthy url \<and> page_count < max_pages then
        (case r of
           Timeout \<Rightarrow> (Exited repos, slept)
         | RequestException \<Rightarrow> (Exited repos, slept)
         | Response st data nxt \<Rightarrow>
             if st = 403 then
               org_repos_loop max_pages srv url (page_count + 1) repos (slept + 60)
             else if st = 404 then (Returned [], slept)
             else if st \<noteq> 200 then (Returned [], slept)
             else org_repos_loop max_pages srv nxt (page_count + 1) (repos @ data)
                    (slept + 1))
      else (Exited repos, slept))"
  by (subst org_repos_loop.simps) (simp split: response.split)

lemma repo_pr_loop_step:
  "repo_pr_loop max_pages (r ## srv) url page_count prs slept =
     (if truthy url \<and> page_count < max_pages then
        (case r of
           Timeout \<Rightarrow> (Exited prs, slept)
         | RequestException \<Rightarrow> (Exited prs, slept)
         | Response st data nxt \<Rightarrow>
             if st = 403 then
               repo_pr_loop max_pages srv url (page_count + 1) prs (slept + 60)
             else if st = 404 then (Returned [], slept)
             else if st \<noteq> 200 then (Returned [], slept)
             else repo_pr_loop max_pages srv nxt (page_count + 1) (prs @ data)
                    (slept + 1))
      else (Exited prs, slept))"
  by (subst repo_pr_loop.simps) (simp split: response.split)

lemma merged_prs_loop_step:
  "merged_prs_loop max_pages cutoff_date repo_name (r ## srv) page merged_prs slept =
     (if page \<le> max_pages then
        (case r of
           Timeout \<Rightarrow> Some (merged_prs, slept)
         | RequestException \<Rightarrow> Some (merged_prs, slept)
         | Response st prs nxt \<Rightarrow>
             if st = 403 then
               merged_prs_loop max_pages cutoff_date repo_name srv page merged_prs
                 (slept + 60)
             else if st = 404 then Some ([], slept)
             else if st \<noteq> 200 then Some ([], slept)
             else if prs = [] then Some (merged_prs, slept)
             else (case scan_prs cutoff_date repo_name prs merged_prs of
                     Stop found \<Rightarrow> Some (found, slept)
                   | Continue found \<Rightarrow>
                       if nxt = None then Some (found, slept)
                       else merged_prs_loop max_pages cutoff_date repo_name srv
                              (page + 1) found (slept + 1)))
      else Some (merged_prs, slept))"
  by (subst merged_prs_loop.simps) (simp split: response.split scan.split)

section \<open>A status other than 200, 403 and 404\<close>

lemma org_repos_loop_reaches_other:
  assumes "st \<noteq> 200" "st \<noteq> 403" "st \<noteq> 404"
  shows "list_all keeps_walking pre \<Longrightarrow> truthy url \<Longrightarrow> page_count + length pre < max_pages \<Longrightarrow>
    fst (org_repos_loop max_pages (pre @- (Response st d n ## rest)) url page_count repos slept)
      = Returned []"
proof (induction pre arbitrary: url page_count repos slept)
  case Nil
  then show ?case using assms by (simp add: org_repos_loop_step)
next
  case (Cons r pre)
  then show ?case
    by (cases r) (auto simp: org_repos_loop_step keeps_walking_def)
qed

lemma repo_pr_loop_reaches_other:
  assumes "st \<noteq> 200" "st \<noteq> 403" "st \<noteq> 404"
  shows "list_all keeps_walking pre \<Longrightarrow> truthy url \<Longrightarrow> page_count + length pre < max_pages \<Longrightarrow>
    fst (repo_pr_loop max_pages (pre @- (Response st d n ## rest)) url page_count prs slept)
      = Returned []"
proof (induction pre arbitrary: url page_count prs slept)
  case Nil
  then show ?case using assms by (simp add: repo_pr_loop_step)
next
  case (Cons r pre)
  then show ?case
    by (cases r) (auto simp: repo_pr_loop_step keeps_walking_def)
qed

lemma scan_prs_never_stops:
  "never_stops c prs \<Longrightarrow> \<exists>found. scan_prs c repo prs acc = Continue found"
  by (induction prs arbitrary: acc) (auto simp: never_stops_def split: merged_at_field.splits)

lemma merged_prs_loop_reaches_other:
  assumes "st \<noteq> 200" "st \<noteq> 403" "st \<noteq> 404"
  shows "list_all (keeps_scanning c) pre \<Longrightarrow> page + length (filter is_page pre) \<le> max_pages \<Longrightarrow>
    map_option fst (merged_prs_loop max_pages c repo (pre @- (Response st d n ## rest)) page acc slept)
      = Some []"
proof (induction pre arbitrary: page acc slept)
  case Nil
  then show ?case using assms by (simp add: merged_prs_loop_step)
next
  case (Cons r pre)
  show ?case
  proof (cases r)
    case (Response st' prs' n')
    show ?thesis
    proof (cases "st' = 403")
      case True
      with Cons Response show ?thesis
        by (simp add: merged_prs_loop_step)
    next
      case False
      with Cons.prems Response have h: "st' = 200" "prs' \<noteq> []" "n' \<noteq> None" "never_stops c prs'"
        by (auto simp: keeps_scanning_def)
      from scan_prs_never_stops[OF h(4)] obtain found where f: "scan_prs c repo prs' acc = Continue found"
        by blast
      from Cons.prems Response h have "page + 1 + length (filter is_page pre) \<le> max_pages"
        by simp
      then have IH: "map_option fst (merged_prs_loop max_pages c repo
            (pre @- (Response st d n ## rest)) (page + 1) found (slept + 1)) = Some []"
        using Cons.IH[of "page + 1" found "slept + 1"] Cons.prems by simp
      from Cons.prems Response h have "page \<le> max_pages" by simp
      then have "merged_prs_loop max_pages c repo ((r # pre) @- (Response st d n ## rest)) page acc slept
          = merged_prs_loop max_pages c repo (pre @- (Response st d n ## rest)) (page + 1) found (slept + 1)"
        using Response h f by (auto simp: merged_prs_loop_step)
      with IH show ?thesis by simp
    qed
  next
    case Timeout
    with Cons.prems show ?thesis by (simp add: keeps_scanning_def)
  next
    case RequestException
    with Cons.prems show ?thesis by (simp add: keeps_scanning_def)
  qed
qed

text \<open>
  Claim C2, as the code has it. When a page request returns a status other than 200,
  403 and 404, each of the three fetchers returns the empty list: the items of the
  pages fetched before are discarded. The walk reaches that request when every
  response before it makes the loop go on and the page cap is not exhausted.
\<close>

theorem other_status_returns_empty:
  assumes "st \<noteq> 200" "st \<noteq> 403" "st \<noteq> 404"
  shows "(list_all keeps_walking pre \<and> length pre < 10 \<longrightarrow>
            fst (fetch_org_repos org_name (pre @- (Response st d n ## rest))) = [])
       \<and> (list_all keeps_walking pre' \<and> length pre' < 20 \<longrightarrow>
            fst (fetch_repo_pr_data org_name repo_name (pre' @- (Response st d' n' ## rest'))) = [])
       \<and> (list_all (keeps_scanning (now - days * 86400)) pre' \<and> length (filter is_page pre') < 10 \<longrightarrow>
            map_option fst (fetch_merged_prs_for_repo now org_name repo_name days
                              (pre' @- (Response st d' n' ## rest'))) = Some [])"
proof (intro conjI impI)
  assume h: "list_all keeps_walking pre \<and> length pre < 10"
  then have a: "list_all keeps_walking pre" and b: "0 + length pre < 10" by simp_all
  have t: "truthy (Some (repos_url org_name))"
    by (simp add: truthy_def repos_url_def)
  show "fst (fetch_org_repos org_name (pre @- (Response st d n ## rest))) = []"
    using org_repos_loop_reaches_other[OF assms a t b, of d n rest "[]" 0]
    by (auto simp: fetch_org_repos_def split: prod.splits walk.splits)
next
  assume h: "list_all keeps_walking pre' \<and> length pre' < 20"
  then have a: "list_all keeps_walking pre'" and b: "0 + length pre' < 20" by simp_all
  have t: "truthy (Some (pulls_url org_name repo_name))"
    by (simp add: truthy_def pulls_url_def)
  show "fst (fetch_repo_pr_data org_name repo_name (pre' @- (Response st d' n' ## rest'))) = []"
    using repo_pr_loop_reaches_other[OF assms a t b, of d' n' rest' "[]" 0]
    by (auto simp: fetch_repo_pr_data_def split: prod.splits walk.splits)
next
  assume h: "list_all (keeps_scanning (now - days * 86400)) pre' \<and> length (filter is_page pre') < 10"
  then have a: "list_all (keeps_scanning (now - days * 86400)) pre'"
    and b: "1 + length (filter is_page pre') \<le> 10" by simp_all
  show "map_option fst (fetch_merged_prs_for_repo now org_name repo_name days
                              (pre' @- (Response st d' n' ## rest'))) = Some []"
    unfolding fetch_merged_prs_for_repo_def
    by (rule merged_prs_loop_reaches_other[OF assms a b])
qed

text \<open>
  An instance of C2: one page of one item, then a response with status 500.
\<close>

theorem other_status_returns_empty_witness:
  "fst (fetch_org_repos ''acme''
          ([Response 200 [repo1] (Some ''page2'')] @- (Response 500 [] None ## sconst Timeout))) = []
   \<and> fst (fetch_repo_pr_data ''acme'' ''core''
          ([Response 200 [pr1] (Some ''page2'')] @- (Response 500 [] None ## sconst Timeout))) = []
   \<and> map_option fst (fetch_merged_prs_for_repo 100000 ''acme'' ''core'' 1
          ([Response 200 [pr1] (Some ''page2'')] @- (Response 500 [] None ## sconst Timeout)))
        = Some []"
  using other_status_returns_empty[of 500 "[Response 200 [repo1] (Some ''page2'')]"
          "''acme''" "[]" None "sconst Timeout"
          "[Response 200 [pr1] (Some ''page2'')]" "''core''" "[]" None "sconst Timeout" 100000 1]
  by (simp add: keeps_walking_def keeps_scanning_def never_stops_def truthy_def pr1_def)

text \<open>
  Claim C2 as stated fails: after a first page holding \<open>pr1\<close>, a 500 response makes
  \<^verbatim>\<open>fetch_repo_pr_data\<close> return the empty list, not the list \<open>[pr1]\<close>
  accumulated so far.
\<close>

theorem other_status_keeps_partial_counterexample:
  "fst (fetch_repo_pr_data ''acme'' ''core''
          ([Response 200 [pr1] (Some ''page2'')] @- (Response 500 [] None ## sconst Timeout))) = []
   \<and> fst (fetch_repo_pr_data ''acme'' ''core''
          ([Response 200 [pr1] (Some ''page2'')] @- (Response 500 [] None ## sconst Timeout))) \<noteq> [pr1]"
  by (simp add: fetch_repo_pr_data_def repo_pr_loop_step truthy_def pulls_url_def)

section \<open>Rate limiting: the 403 response\<close>

lemma is_403_simps [simp]:
  "is_403 (Response st d n) = (st = 403)" "\<not> is_403 Timeout" "\<not> is_403 RequestException"
  by (simp_all add: is_403_def)

lemma merged_prs_loop_sleep_aux:
  assumes "merged_prs_loop m c repo s p a t = Some y"
  shows "\<forall>t'. \<exists>u. merged_prs_loop m c repo s p a t' = Some (fst y, u)"
proof (rule merged_prs_loop.raw_induct[where P = "\<lambda>m c repo s p a t y.
          \<forall>t'. \<exists>u. merged_prs_loop m c repo s p a t' = Some (fst y, u)", OF _ assms])
  fix loop' :: "nat \<Rightarrow> int \<Rightarrow> string \<Rightarrow> pr response stream \<Rightarrow> nat \<Rightarrow> merged_pr list \<Rightarrow> nat
     \<Rightarrow> (merged_pr list \<times> nat) option"
  fix m c repo s p a t y
  assume IH: "\<And>m c repo s p a t y. loop' m c repo s p a t = Some y \<Longrightarrow>
          \<forall>t'. \<exists>u. merged_prs_loop m c repo s p a t' = Some (fst y, u)"
  assume body: "(if p \<le> m then
        (case shd s of
           Timeout \<Rightarrow> Some (a, t)
         | RequestException \<Rightarrow> Some (a, t)
         | Response st prs nxt \<Rightarrow>
             if st = 403 then loop' m c repo (stl s) p a (t + 60)
             else if st = 404 then Some ([], t)
             else if st \<noteq> 200 then Some ([], t)
             else if prs = [] then Some (a, t)
             else (case scan_prs c repo prs a of
                     Stop found \<Rightarrow> Some (found, t)
                   | Continue found \<Rightarrow>
                       if nxt = None then Some (found, t)
                       else loop' m c repo (stl s) (p + 1) found (t + 1)))
      else Some (a, t)) = Some y"
  show "\<forall>t'. \<exists>u. merged_prs_loop m c repo s p a t' = Some (fst y, u)"
  proof
    fix t'
    have IH': "\<exists>u. merged_prs_loop m c repo s p a t' = Some (fst y, u)"
      if "loop' m c repo s p a t = Some y" for m c repo s p a t t' y
      using IH[OF that] by blast
    show "\<exists>u. merged_prs_loop m c repo s p a t' = Some (fst y, u)"
      using body
      by (subst merged_prs_loop.simps)
         (auto split: if_splits response.splits scan.splits intro: IH')
  qed
qed

lemma merged_prs_loop_sleep_indep:
  "map_option fst (merged_prs_loop m c repo s p a t) =
   map_option fst (merged_prs_loop m c repo s p a t')"
proof (cases "merged_prs_loop m c repo s p a t")
  case None
  show ?thesis
  proof (cases "merged_prs_loop m c repo s p a t'")
    case None
    with \<open>merged_prs_loop m c repo s p a t = None\<close> show ?thesis by simp
  next
    case (Some y)
    from merged_prs_loop_sleep_aux[OF Some, rule_format, of t] None show ?thesis by auto
  qed
next
  case (Some y)
  from merged_prs_loop_sleep_aux[OF Some] obtain u where
    "merged_prs_loop m c repo s p a t' = Some (fst y, u)" by blast
  with Some show ?thesis by simp
qed

lemma merged_prs_loop_skips_403:
  "map_option fst (merged_prs_loop m c repo (pre @- srv) p a t) =
   map_option fst (merged_prs_loop m c repo (filter (\<lambda>r. \<not> is_403 r) pre @- srv) p a t)"
proof (induction pre arbitrary: p a t)
  case Nil
  show ?case by simp
next
  case (Cons r pre)
  show ?case
  proof (cases "p \<le> m")
    case False
    then show ?thesis by (subst (1 2) merged_prs_loop.simps) simp
  next
    case True
    show ?thesis
    proof (cases "is_403 r")
      case t403: True
      then obtain d n where r: "r = Response 403 d n" by (cases r) auto
      have "merged_prs_loop m c repo ((r # pre) @- srv) p a t =
            merged_prs_loop m c repo (pre @- srv) p a (t + 60)"
        using True r by (simp add: merged_prs_loop_step)
      then have "map_option fst (merged_prs_loop m c repo ((r # pre) @- srv) p a t) =
            map_option fst (merged_prs_loop m c repo (pre @- srv) p a t)"
        using merged_prs_loop_sleep_indep[of m c repo "pre @- srv" p a "t + 60" t] by simp
      with Cons.IH[of p a t] t403 show ?thesis by simp
    next
      case False
      then show ?thesis
        using Cons.IH
        by (cases r) (auto simp: merged_prs_loop_step split: scan.splits)
    qed
  qed
qed

lemma merged_prs_loop_retries:
  "list_all is_403 rl \<Longrightarrow> p \<le> m \<Longrightarrow>
   merged_prs_loop m c repo (rl @- srv) p a t =
   merged_prs_loop m c repo srv p a (t + 60 * length rl)"
proof (induction rl arbitrary: t)
  case Nil
  show ?case by simp
next
  case (Cons r rl)
  then obtain d n where r: "r = Response 403 d n" by (cases r) auto
  with Cons show ?case by (simp add: merged_prs_loop_step add.assoc)
qed

lemma org_repos_loop_retries:
  "list_all is_403 rl \<Longrightarrow> truthy url \<Longrightarrow> page_count + length rl \<le> max_pages \<Longrightarrow>
   org_repos_loop max_pages (rl @- srv) url page_count repos slept =
   org_repos_loop max_pages srv url (page_count + length rl) repos (slept + 60 * length rl)"
proof (induction rl arbitrary: page_count slept)
  case Nil
  show ?case by simp
next
  case (Cons r rl)
  then obtain d n where r: "r = Response 403 d n" by (cases r) auto
  with Cons.prems Cons.IH[of "page_count + 1" "slept + 60"] show ?case
    by (simp add: org_repos_loop_step add.assoc)
qed

lemma repo_pr_loop_retries:
  "list_all is_403 rl \<Longrightarrow> truthy url \<Longrightarrow> page_count + length rl \<le> max_pages \<Longrightarrow>
   repo_pr_loop max_pages (rl @- srv) url page_count prs slept =
   repo_pr_loop max_pages srv url (page_count + length rl) prs (slept + 60 * length rl)"
proof (induction rl arbitrary: page_count slept)
  case Nil
  show ?case by simp
next
  case (Cons r rl)
  then obtain d n where r: "r = Response 403 d n" by (cases r) auto
  with Cons.prems Cons.IH[of "page_count + 1" "slept + 60"] show ?case
    by (simp add: repo_pr_loop_step add.assoc)
qed

lemma merged_prs_loop_403_forever:
  assumes "merged_prs_loop m c repo s p a t = Some y"
  shows "\<not> (s = sconst (Response 403 [] None) \<and> p \<le> m)"
proof (rule merged_prs_loop.raw_induct[where P = "\<lambda>m c repo s p a t y.
          \<not> (s = sconst (Response 403 [] None) \<and> p \<le> m)", OF _ assms])
  fix loop' :: "nat \<Rightarrow> int \<Rightarrow> string \<Rightarrow> pr response stream \<Rightarrow> nat \<Rightarrow> merged_pr list \<Rightarrow> nat
     \<Rightarrow> (merged_pr list \<times> nat) option"
  fix m c repo s p a t y
  assume IH: "\<And>m c repo s p a t y. loop' m c repo s p a t = Some y \<Longrightarrow>
          \<not> (s = sconst (Response 403 [] None) \<and> p \<le> m)"
  assume body: "(if p \<le> m then
        (case shd s of
           Timeout \<Rightarrow> Some (a, t)
         | RequestException \<Rightarrow> Some (a, t)
         | Response st prs nxt \<Rightarrow>
             if st = 403 then loop' m c repo (stl s) p a (t + 60)
             else if st = 404 then Some ([], t)
             else if st \<noteq> 200 then Some ([], t)
             else if prs = [] then Some (a, t)
             else (case scan_prs c repo prs a of
                     Stop found \<Rightarrow> Some (found, t)
                   | Continue found \<Rightarrow>
                       if nxt = None then Some (found, t)
                       else loop' m c repo (stl s) (p + 1) found (t + 1)))
      else Some (a, t)) = Some y"
  show "\<not> (s = sconst (Response 403 [] None) \<and> p \<le> m)"
  proof
    assume h: "s = sconst (Response 403 [] None) \<and> p \<le> m"
    with body have "loop' m c repo (stl s) p a (t + 60) = Some y" by simp
    from IH[OF this] h show False by simp
  qed
qed

text \<open>
  Claim C4 fails on \<^verbatim>\<open>fetch_merged_prs_for_repo\<close>: when every request is answered
  with 403, the loop sleeps and retries forever and the function does not return.
\<close>

theorem rate_limited_forever:
  "fetch_merged_prs_for_repo now org_name repo_name days (sconst (Response 403 [] None)) = None"
proof (cases "fetch_merged_prs_for_repo now org_name repo_name days (sconst (Response 403 [] None))")
  case None
  then show ?thesis .
next
  case (Some y)
  then show ?thesis
    unfolding fetch_merged_prs_for_repo_def
    using merged_prs_loop_403_forever by fastforce
qed

lemma org_repos_loop_stop:
  "\<not> (truthy url \<and> page_count < max_pages) \<Longrightarrow>
   org_repos_loop max_pages srv url page_count repos slept = (Exited repos, slept)"
  by (subst org_repos_loop.simps) auto

lemma repo_pr_loop_stop:
  "\<not> (truthy url \<and> page_count < max_pages) \<Longrightarrow>
   repo_pr_loop max_pages srv url page_count prs slept = (Exited prs, slept)"
  by (subst repo_pr_loop.simps) auto

text \<open>
  Claim C3 as stated fails on \<^verbatim>\<open>fetch_org_repos\<close>: ten 403 responses use up the
  ten iterations, so the page that follows is never requested and the result is empty,
  while without the 403 responses the page is fetched.
\<close>

theorem rate_limit_consumes_budget_counterexample:
  "fst (fetch_org_repos ''acme''
          (replicate 10 (Response 403 [] None) @- (Response 200 [repo1] None ## sconst Timeout))) = []
   \<and> fst (fetch_org_repos ''acme'' (Response 200 [repo1] None ## sconst Timeout)) = [repo1]"
proof
  have a: "list_all is_403 (replicate 10 (Response 403 [] None :: repo response))"
    by (simp add: list_all_iff)
  have t: "truthy (Some (repos_url ''acme''))" by (simp add: truthy_def repos_url_def)
  have "org_repos_loop 10
          (replicate 10 (Response 403 [] None) @- (Response 200 [repo1] None ## sconst Timeout))
          (Some (repos_url ''acme'')) 0 [] 0 = (Exited [], 600)"
    using org_repos_loop_retries[OF a t, of 0 10 "Response 200 [repo1] None ## sconst Timeout" "[]" 0]
    by (simp add: org_repos_loop_stop)
  then show "fst (fetch_org_repos ''acme''
          (replicate 10 (Response 403 [] None) @- (Response 200 [repo1] None ## sconst Timeout))) = []"
    by (simp add: fetch_org_repos_def top5_def)
  have "org_repos_loop 10 (Response 200 [repo1] None ## sconst Timeout)
          (Some (repos_url ''acme'')) 0 [] 0 = (Exited [repo1], 1)"
    using t by (simp add: org_repos_loop_step org_repos_loop_stop truthy_def)
  then show "fst (fetch_org_repos ''acme'' (Response 200 [repo1] None ## sconst Timeout)) = [repo1]"
    by (simp add: fetch_org_repos_def top5_def)
qed


text \<open>
  \<^verbatim>\<open>fetch_org_repos\<close> and \<^verbatim>\<open>fetch_repo_pr_data\<close> count every request,
  a retry after 403 included, against \<^verbatim>\<open>max_pages\<close>: their result depends on
  the first 10 (20) responses only.
\<close>

lemma org_repos_loop_reads_at_most:
  "stake (max_pages - page_count) srv = stake (max_pages - page_count) srv' \<Longrightarrow>
   org_repos_loop max_pages srv url page_count repos slept =
   org_repos_loop max_pages srv' url page_count repos slept"
proof (induction "max_pages - page_count" arbitrary: srv srv' url page_count repos slept)
  case 0
  then show ?case by (simp add: org_repos_loop_stop)
next
  case (Suc k)
  then have eq: "max_pages - page_count = Suc k" by simp
  then have k: "k = max_pages - (page_count + 1)" by simp
  from Suc.prems eq have hd: "shd srv = shd srv'" by simp
  from Suc.prems eq have "stake k (stl srv) = stake k (stl srv')" by simp
  then have tl: "stake (max_pages - (page_count + 1)) (stl srv) =
      stake (max_pages - (page_count + 1)) (stl srv')"
    unfolding k .
  have IH: "org_repos_loop max_pages (stl srv) u (Suc page_count) acc t =
      org_repos_loop max_pages (stl srv') u (Suc page_count) acc t" for u acc t
    using Suc.hyps(1)[OF k tl, of u acc t] by simp
  show ?case
    by (subst (1 2) org_repos_loop.simps) (simp add: hd IH split: response.split)
qed

lemma repo_pr_loop_reads_at_most:
  "stake (max_pages - page_count) srv = stake (max_pages - page_count) srv' \<Longrightarrow>
   repo_pr_loop max_pages srv url page_count prs slept =
   repo_pr_loop max_pages srv' url page_count prs slept"
proof (induction "max_pages - page_count" arbitrary: srv srv' url page_count prs slept)
  case 0
  then show ?case by (simp add: repo_pr_loop_stop)
next
  case (Suc k)
  then have eq: "max_pages - page_count = Suc k" by simp
  then have k: "k = max_pages - (page_count + 1)" by simp
  from Suc.prems eq have hd: "shd srv = shd srv'" by simp
  from Suc.prems eq have "stake k (stl srv) = stake k (stl srv')" by simp
  then have tl: "stake (max_pages - (page_count + 1)) (stl srv) =
      stake (max_pages - (page_count + 1)) (stl srv')"
    unfolding k .
  have IH: "repo_pr_loop max_pages (stl srv) u (Suc page_count) acc t =
      repo_pr_loop max_pages (stl srv') u (Suc page_count) acc t" for u acc t
    using Suc.hyps(1)[OF k tl, of u acc t] by simp
  show ?case
    by (subst (1 2) repo_pr_loop.simps) (simp add: hd IH split: response.split)
qed

lemma fetch_org_repos_reads_at_most:
  "stake 10 srv = stake 10 srv' \<Longrightarrow> fetch_org_repos org_name srv = fetch_org_repos org_name srv'"
  unfolding fetch_org_repos_def
  using org_repos_loop_reads_at_most[of 10 0 srv srv'] by simp

lemma fetch_repo_pr_data_reads_at_most:
  "stake 20 srv = stake 20 srv' \<Longrightarrow>
   fetch_repo_pr_data org_name repo_name srv = fetch_repo_pr_data org_name repo_name srv'"
  unfolding fetch_repo_pr_data_def
  using repo_pr_loop_reads_at_most[of 20 0 srv srv'] by simp

text \<open>
  Claim C3, as the code has it. \<^verbatim>\<open>fetch_merged_prs_for_repo\<close> sleeps 60 seconds
  per 403 response and retries without consuming its page budget: after any 403
  responses it is in its initial state (page 1, nothing accumulated) with 60 seconds
  slept for each, and deleting the 403 responses from any finite prefix of the
  responses leaves the list it returns unchanged. In \<^verbatim>\<open>fetch_org_repos\<close> and
  \<^verbatim>\<open>fetch_repo_pr_data\<close> a 403 response also sleeps 60 seconds and retries the
  same URL, but it consumes one of the 10 (20) iterations: after \<open>k\<close> such responses
  the walk goes on with \<^verbatim>\<open>page_count = k\<close>.
\<close>

theorem rate_limit_retry_budget:
  "(list_all is_403 rl \<longrightarrow>
      fetch_merged_prs_for_repo now org_name repo_name days (rl @- psrv) =
      merged_prs_loop 10 (now - days * 86400) repo_name psrv 1 [] (60 * length rl))
   \<and> map_option fst (fetch_merged_prs_for_repo now org_name repo_name days (pre @- psrv)) =
     map_option fst (fetch_merged_prs_for_repo now org_name repo_name days
                       (filter (\<lambda>r. \<not> is_403 r) pre @- psrv))
   \<and> (list_all is_403 rl' \<and> length rl' \<le> 10 \<longrightarrow>
        fetch_org_repos org_name (rl' @- rsrv) =
        (case org_repos_loop 10 rsrv (Some (repos_url org_name)) (length rl') []
                (60 * length rl') of
           (Returned result, slept) \<Rightarrow> (result, slept)
         | (Exited repos, slept) \<Rightarrow> (top5 repos, slept)))
   \<and> (list_all is_403 rl \<and> length rl \<le> 20 \<longrightarrow>
        fetch_repo_pr_data org_name repo_name (rl @- psrv) =
        (case repo_pr_loop 20 psrv (Some (pulls_url org_name repo_name)) (length rl) []
                (60 * length rl) of
           (Returned result, slept) \<Rightarrow> (result, slept)
         | (Exited prs, slept) \<Rightarrow> (prs, slept)))"
proof (intro conjI impI)
  assume "list_all is_403 rl"
  then show "fetch_merged_prs_for_repo now org_name repo_name days (rl @- psrv) =
      merged_prs_loop 10 (now - days * 86400) repo_name psrv 1 [] (60 * length rl)"
    unfolding fetch_merged_prs_for_repo_def
    using merged_prs_loop_retries[of rl 1 10 "now - days * 86400" repo_name psrv "[]" 0] by simp
next
  show "map_option fst (fetch_merged_prs_for_repo now org_name repo_name days (pre @- psrv)) =
     map_option fst (fetch_merged_prs_for_repo now org_name repo_name days
                       (filter (\<lambda>r. \<not> is_403 r) pre @- psrv))"
    unfolding fetch_merged_prs_for_repo_def by (rule merged_prs_loop_skips_403)
next
  assume h: "list_all is_403 rl' \<and> length rl' \<le> 10"
  have t: "truthy (Some (repos_url org_name))" by (simp add: truthy_def repos_url_def)
  from h show "fetch_org_repos org_name (rl' @- rsrv) =
        (case org_repos_loop 10 rsrv (Some (repos_url org_name)) (length rl') []
                (60 * length rl') of
           (Returned result, slept) \<Rightarrow> (result, slept)
         | (Exited repos, slept) \<Rightarrow> (top5 repos, slept))"
    unfolding fetch_org_repos_def
    using org_repos_loop_retries[OF _ t, of rl' 0 10 rsrv "[]" 0] by simp
next
  assume h: "list_all is_403 rl \<and> length rl \<le> 20"
  have t: "truthy (Some (pulls_url org_name repo_name))" by (simp add: truthy_def pulls_url_def)
  from h show "fetch_repo_pr_data org_name repo_name (rl @- psrv) =
        (case repo_pr_loop 20 psrv (Some (pulls_url org_name repo_name)) (length rl) []
                (60 * length rl) of
           (Returned result, slept) \<Rightarrow> (result, slept)
         | (Exited prs, slept) \<Rightarrow> (prs, slept))"
    unfolding fetch_repo_pr_data_def
    using repo_pr_loop_retries[OF _ t, of rl 0 20 psrv "[]" 0] by simp
qed

text \<open>
  An instance of C3: one 403 response, then a single page without a next link.
\<close>

theorem rate_limit_retry_budget_witness:
  "fetch_merged_prs_for_repo 100000 ''acme'' ''core'' 1
      ([Response 403 [] None] @- (Response 200 [pr1] None ## sconst Timeout))
     = Some ([merged_entry ''core'' pr1 50000], 60)
   \<and> map_option fst (fetch_merged_prs_for_repo 100000 ''acme'' ''core'' 1
        ([Response 403 [] None, Response 200 [pr1] None] @- sconst Timeout))
     = Some [merged_entry ''core'' pr1 50000]
   \<and> fetch_org_repos ''acme'' ([Response 403 [] None] @- (Response 200 [repo1] None ## sconst Timeout))
     = ([repo1], 61)
   \<and> fetch_repo_pr_data ''acme'' ''core''
        ([Response 403 [] None] @- (Response 200 [pr1] None ## sconst Timeout))
     = ([pr1], 61)"
  using rate_limit_retry_budget[where rl = "[Response 403 [] None]"
          and rl' = "[Response 403 [] None]" and now = 100000 and days = 1
          and org_name = "''acme''" and repo_name = "''core''"
          and psrv = "Response 200 [pr1] None ## sconst Timeout"
          and rsrv = "Response 200 [repo1] None ## sconst Timeout"
          and pre = "[Response 403 [] None]"]
  by (simp add: merged_prs_loop_step org_repos_loop_step repo_pr_loop_step
        org_repos_loop_stop repo_pr_loop_stop truthy_def pr1_def top5_def
        repos_url_def pulls_url_def)

section \<open>The early exit of the merge event extractor\<close>

lemma scan_prs_stops:
  assumes "\<forall>p\<in>set pre. \<exists>t. pr_merged_at p = Timestamp t \<and> t \<ge> c"
    and "pr_merged_at q = Timestamp tq" "tq < c"
  shows "scan_prs c repo (pre @ q # rest) acc =
           Stop (acc @ map (\<lambda>p. merged_entry repo p (timestamp_of p)) pre)"
  using assms(1)
proof (induction pre arbitrary: acc)
  case Nil
  show ?case using assms(2,3) by simp
next
  case (Cons p pre)
  then obtain t where t: "pr_merged_at p = Timestamp t" "t \<ge> c" by auto
  from Cons have "scan_prs c repo (pre @ q # rest) (acc @ [merged_entry repo p t]) =
      Stop ((acc @ [merged_entry repo p t]) @ map (\<lambda>p. merged_entry repo p (timestamp_of p)) pre)"
    by simp
  with t show ?case by (simp add: timestamp_of_def)
qed

text \<open>
  Claim C5. When the first page of pull requests starts with five items merged at or
  after the cutoff (now minus the lookback window) and the sixth is merged before it,
  \<^verbatim>\<open>fetch_merged_prs_for_repo\<close> returns exactly the entries of the first five, in
  order, each with the merge time, number and title of its pull request and the name
  of the repository. It returns at the sixth: the result does not depend on the items
  after it, on the next link or on any later response, and nothing more is slept.
\<close>

theorem early_stop_at_sixth:
  assumes "length first_five = 5"
    and "\<forall>p\<in>set first_five. \<exists>t. pr_merged_at p = Timestamp t \<and> t \<ge> now - days * 86400"
    and "pr_merged_at sixth = Timestamp t_sixth" and "t_sixth < now - days * 86400"
  shows "fetch_merged_prs_for_repo now org_name repo_name days
           (Response 200 (first_five @ sixth # rest) nxt ## srv)
         = Some (map (\<lambda>p. \<lparr>m_merged_at = (case pr_merged_at p of Timestamp t \<Rightarrow> t | _ \<Rightarrow> 0),
                              m_number = pr_number p, m_title = pr_title p,
                              m_repo = repo_name\<rparr>) first_five, 0)"
proof -
  have "scan_prs (now - days * 86400) repo_name (first_five @ sixth # rest) [] =
          Stop (map (\<lambda>p. merged_entry repo_name p (timestamp_of p)) first_five)"
    using scan_prs_stops[OF assms(2,3,4), of repo_name rest "[]"] by simp
  then show ?thesis
    by (simp add: fetch_merged_prs_for_repo_def merged_prs_loop_step merged_entry_def
          timestamp_of_def)
qed

text \<open>
  An instance of C5: the items after the sixth include one merged inside the window,
  and a further page is on offer; neither is looked at.
\<close>

theorem early_stop_at_sixth_witness:
  "fetch_merged_prs_for_repo 100000 ''acme'' ''core'' 1
     (Response 200
        ([\<lparr>pr_number = 16, pr_title = ''sixteen'', pr_merged_at = Timestamp 90000\<rparr>,
          \<lparr>pr_number = 15, pr_title = ''fifteen'', pr_merged_at = Timestamp 80000\<rparr>,
          \<lparr>pr_number = 14, pr_title = ''fourteen'', pr_merged_at = Timestamp 70000\<rparr>,
          \<lparr>pr_number = 13, pr_title = ''thirteen'', pr_merged_at = Timestamp 60000\<rparr>,
          \<lparr>pr_number = 12, pr_title = ''twelve'', pr_merged_at = Timestamp 50000\<rparr>]
         @ \<lparr>pr_number = 11, pr_title = ''eleven'', pr_merged_at = Timestamp 10000\<rparr>
         # [\<lparr>pr_number = 10, pr_title = ''ten'', pr_merged_at = Timestamp 5000\<rparr>,
            \<lparr>pr_number = 17, pr_title = ''seventeen'', pr_merged_at = Timestamp 95000\<rparr>])
        (Some ''page2'')
      ## sconst (Response 200
                  [\<lparr>pr_number = 18, pr_title = ''eighteen'', pr_merged_at = Timestamp 99000\<rparr>]
                  None))
   = Some ([\<lparr>m_merged_at = 90000, m_number = 16, m_title = ''sixteen'', m_repo = ''core''\<rparr>,
            \<lparr>m_merged_at = 80000, m_number = 15, m_title = ''fifteen'', m_repo = ''core''\<rparr>,
            \<lparr>m_merged_at = 70000, m_number = 14, m_title = ''fourteen'', m_repo = ''core''\<rparr>,
            \<lparr>m_merged_at = 60000, m_number = 13, m_title = ''thirteen'', m_repo = ''core''\<rparr>,
            \<lparr>m_merged_at = 50000, m_number = 12, m_title = ''twelve'', m_repo = ''core''\<rparr>],
           0)"
  using early_stop_at_sixth[where now = 100000 and days = 1
          and first_five =
            "[\<lparr>pr_number = 16, pr_title = ''sixteen'', pr_merged_at = Timestamp 90000\<rparr>,
              \<lparr>pr_number = 15, pr_title = ''fifteen'', pr_merged_at = Timestamp 80000\<rparr>,
              \<lparr>pr_number = 14, pr_title = ''fourteen'', pr_merged_at = Timestamp 70000\<rparr>,
              \<lparr>pr_number = 13, pr_title = ''thirteen'', pr_merged_at = Timestamp 60000\<rparr>,
              \<lparr>pr_number = 12, pr_title = ''twelve'', pr_merged_at = Timestamp 50000\<rparr>]"
          and sixth = "\<lparr>pr_number = 11, pr_title = ''eleven'', pr_merged_at = Timestamp 10000\<rparr>"
          and t_sixth = 10000
          and rest = "[\<lparr>pr_number = 10, pr_title = ''ten'', pr_merged_at = Timestamp 5000\<rparr>,
                       \<lparr>pr_number = 17, pr_title = ''seventeen'', pr_merged_at = Timestamp 95000\<rparr>]"
          and org_name = "''acme''" and repo_name = "''core''" and nxt = "Some ''page2''"
          and srv = "sconst (Response 200
                  [\<lparr>pr_number = 18, pr_title = ''eighteen'', pr_merged_at = Timestamp 99000\<rparr>]
                  None)"]
  by simp

section \<open>The handle derived from a profile URL\<close>

lemma split_on_not_Nil [simp]: "split_on sep s \<noteq> []"
  by (induction s) (auto split: list.splits)

lemma split_on_append_sep:
  "split_on sep (xs @ sep # ys) = split_on sep xs @ split_on sep ys"
proof (induction xs)
  case Nil
  show ?case by simp
next
  case (Cons x xs)
  show ?case
  proof (cases "x = sep")
    case True
    with Cons show ?thesis by simp
  next
    case False
    obtain w ws where w: "split_on sep xs = w # ws"
      by (cases "split_on sep xs") auto
    with False Cons show ?thesis by simp
  qed
qed

lemma split_on_no_sep: "sep \<notin> set s \<Longrightarrow> split_on sep s = [s]"
  by (induction s) auto

lemma segments_dropWhile:
  "filter (\<lambda>part. part \<noteq> []) (split_on sep (dropWhile (\<lambda>c. c = sep) s)) =
   filter (\<lambda>part. part \<noteq> []) (split_on sep s)"
  by (induction s) auto

lemma segments_drop_trailing:
  "filter (\<lambda>part. part \<noteq> []) (split_on sep (rev (dropWhile (\<lambda>c. c = sep) (rev s)))) =
   filter (\<lambda>part. part \<noteq> []) (split_on sep s)"
proof (induction s rule: rev_induct)
  case Nil
  show ?case by simp
next
  case (snoc x xs)
  show ?case
  proof (cases "x = sep")
    case True
    have "split_on sep (xs @ [sep]) = split_on sep xs @ [[]]"
      using split_on_append_sep[of sep xs "[]"] by simp
    with True snoc show ?thesis by simp
  next
    case False
    then show ?thesis by simp
  qed
qed

lemma path_parts_of_segments:
  "path_parts_of p = filter (\<lambda>part. part \<noteq> []) (split_on CHR ''/'' p)"
  unfolding path_parts_of_def strip_chars_def
  by (simp add: segments_drop_trailing segments_dropWhile)

lemma lower_orgs: "lower ''orgs'' = ''orgs''"
  by code_simp

lemma path_parts_of_orgs:
  assumes "x \<noteq> []" "CHR ''/'' \<notin> set x"
  shows "path_parts_of (''/orgs/'' @ x @ ''/'' @ rest) = ''orgs'' # x # path_parts_of rest"
proof -
  have "split_on CHR ''/'' (''/orgs/'' @ x @ ''/'' @ rest)
        = [] # split_on CHR ''/'' (''orgs'' @ CHR ''/'' # (x @ CHR ''/'' # rest))"
    by simp
  also have "split_on CHR ''/'' (''orgs'' @ CHR ''/'' # (x @ CHR ''/'' # rest))
        = split_on CHR ''/'' ''orgs'' @ split_on CHR ''/'' (x @ CHR ''/'' # rest)"
    by (rule split_on_append_sep)
  also have "split_on CHR ''/'' (x @ CHR ''/'' # rest) = split_on CHR ''/'' x @ split_on CHR ''/'' rest"
    by (rule split_on_append_sep)
  also have "split_on CHR ''/'' x = [x]" using assms(2) by (rule split_on_no_sep)
  also have "split_on CHR ''/'' ''orgs'' = [''orgs'']" by simp
  finally show ?thesis using assms(1) by (simp add: path_parts_of_segments)
qed

lemma get_organization_list_single:
  assumes "g_github_url org = Some u" and "extract_org_name_from_url (Some u) = Some h"
    and "h \<noteq> []"
  shows "get_organization_list None [org] =
           (if postprocess_slug h = [] then []
            else [\<lparr>o_id = g_id org, o_display_name = display_name_of org,
                   o_github_slug = postprocess_slug h\<rparr>])"
  using assms
  by (simp add: get_organization_list_def normalize_slug_def derive_slug_def truthy_str_def
        Let_def)

text \<open>
  Claim C6, as the code has it. The host counts as the expected one when, lowercased,
  it contains \<^verbatim>\<open>github.com\<close>. For such a URL whose path begins with
  \<^verbatim>\<open>/orgs/x/\<close>, \<^verbatim>\<open>extract_org_name_from_url\<close> yields \<open>x\<close>; for a URL whose
  host does not contain \<^verbatim>\<open>github.com\<close>, it yields the last non-empty segment of the
  path. The handle that \<^verbatim>\<open>get_organization_list\<close> emits for a record with that
  URL is the post-processed one: lowercased, without leading \<^verbatim>\<open>@\<close>, spaces
  replaced by hyphens, and one \<^verbatim>\<open>.git\<close> suffix removed; none is emitted when that
  is empty.
\<close>

theorem handle_from_url:
  "(contains (lower (url_netloc u)) ''github.com'' \<and>
    url_path u = ''/orgs/'' @ x @ ''/'' @ rest \<and> x \<noteq> [] \<and> CHR ''/'' \<notin> set x
      \<longrightarrow> extract_org_name_from_url (Some u) = Some x
          \<and> (g_github_url org = Some u \<longrightarrow>
               (let h = (if endswith (cleaned x) ''.git''
                         then take (length (cleaned x) - 4) (cleaned x) else cleaned x)
                in map o_github_slug (get_organization_list None [org]) =
                     (if h = [] then [] else [h]))))
   \<and> (\<not> contains (lower (url_netloc u)) ''github.com'' \<and>
      filter (\<lambda>seg. seg \<noteq> []) (split_on CHR ''/'' (url_path u)) \<noteq> []
      \<longrightarrow> (let y = last (filter (\<lambda>seg. seg \<noteq> []) (split_on CHR ''/'' (url_path u)))
           in extract_org_name_from_url (Some u) = Some y
              \<and> (g_github_url org = Some u \<longrightarrow>
                   (let h = (if endswith (cleaned y) ''.git''
                             then take (length (cleaned y) - 4) (cleaned y) else cleaned y)
                    in map o_github_slug (get_organization_list None [org]) =
                         (if h = [] then [] else [h])))))"
proof -
  have post: "postprocess_slug raw =
      (if endswith (cleaned raw) ''.git'' then take (length (cleaned raw) - 4) (cleaned raw)
       else cleaned raw)" for raw
    by (simp add: postprocess_slug_def cleaned_def Let_def)
  have emitted: "map o_github_slug (get_organization_list None [org]) =
      (if postprocess_slug raw = [] then [] else [postprocess_slug raw])"
    if "g_github_url org = Some u" "extract_org_name_from_url (Some u) = Some raw" "raw \<noteq> []"
    for raw
    using get_organization_list_single[OF that] by simp
  show ?thesis
  proof (intro conjI impI)
    assume h: "contains (lower (url_netloc u)) ''github.com'' \<and>
      url_path u = ''/orgs/'' @ x @ ''/'' @ rest \<and> x \<noteq> [] \<and> CHR ''/'' \<notin> set x"
    then have "path_parts_of (url_path u) = ''orgs'' # x # path_parts_of rest"
      using path_parts_of_orgs[of x rest] by simp
    with h show e: "extract_org_name_from_url (Some u) = Some x"
      by (simp add: extract_org_name_from_url_def Let_def lower_orgs)
    assume "g_github_url org = Some u"
    from emitted[OF this e] h
    show "let h = (if endswith (cleaned x) ''.git''
                   then take (length (cleaned x) - 4) (cleaned x) else cleaned x)
          in map o_github_slug (get_organization_list None [org]) =
               (if h = [] then [] else [h])"
      unfolding Let_def post[symmetric] by simp
  next
    let ?y = "last (filter (\<lambda>seg. seg \<noteq> []) (split_on CHR ''/'' (url_path u)))"
    assume h: "\<not> contains (lower (url_netloc u)) ''github.com'' \<and>
      filter (\<lambda>seg. seg \<noteq> []) (split_on CHR ''/'' (url_path u)) \<noteq> []"
    then have e: "extract_org_name_from_url (Some u) = Some ?y"
      by (simp add: extract_org_name_from_url_def Let_def path_parts_of_segments)
    from h have "?y \<in> set (filter (\<lambda>seg. seg \<noteq> []) (split_on CHR ''/'' (url_path u)))"
      using last_in_set by blast
    then have ne: "?y \<noteq> []" unfolding set_filter by blast
    have "g_github_url org = Some u \<longrightarrow>
            map o_github_slug (get_organization_list None [org]) =
              (if postprocess_slug ?y = [] then [] else [postprocess_slug ?y])"
      using emitted[OF _ e ne] by blast
    with e show "let y = ?y
           in extract_org_name_from_url (Some u) = Some y
              \<and> (g_github_url org = Some u \<longrightarrow>
                   (let h = (if endswith (cleaned y) ''.git''
                             then take (length (cleaned y) - 4) (cleaned y) else cleaned y)
                    in map o_github_slug (get_organization_list None [org]) =
                         (if h = [] then [] else [h])))"
      unfolding Let_def post[symmetric] by simp
  qed
qed

text \<open>
  Instances of C6: \<^verbatim>\<open>https://github.com/orgs/Acme-Org/repositories\<close> gives
  \<^verbatim>\<open>Acme-Org\<close> and the emitted handle \<^verbatim>\<open>acme-org\<close>;
  \<^verbatim>\<open>https://gitlab.com/group/Project.git/\<close> gives \<^verbatim>\<open>Project.git\<close> and the
  emitted handle \<^verbatim>\<open>project\<close>.
\<close>

theorem handle_from_url_witness:
  "extract_org_name_from_url (g_github_url github_org) = Some ''Acme-Org''
   \<and> map o_github_slug (get_organization_list None [github_org]) = [''acme-org'']
   \<and> extract_org_name_from_url (g_github_url gitlab_org) = Some ''Project.git''
   \<and> map o_github_slug (get_organization_list None [gitlab_org]) = [''project'']"
proof -
  let ?u = "\<lparr>url_netloc = ''github.com'', url_path = ''/orgs/Acme-Org/repositories''\<rparr>"
  let ?v = "\<lparr>url_netloc = ''gitlab.com'', url_path = ''/group/Project.git/''\<rparr>"
  have c1: "contains (lower ''github.com'') ''github.com''" by code_simp
  have c2: "\<not> contains (lower ''gitlab.com'') ''github.com''" by code_simp
  have p1: "cleaned ''Acme-Org'' = ''acme-org''" "\<not> endswith ''acme-org'' ''.git''"
    by code_simp+
  have p2: "cleaned ''Project.git'' = ''project.git''" "endswith ''project.git'' ''.git''"
    by code_simp+
  have d1: "g_github_url github_org = Some ?u" by (simp add: github_org_def)
  have d2: "g_github_url gitlab_org = Some ?v" by (simp add: gitlab_org_def)
  from handle_from_url[of ?u "''Acme-Org''" "''repositories''" github_org] c1 p1 d1
  have a: "extract_org_name_from_url (g_github_url github_org) = Some ''Acme-Org''
     \<and> map o_github_slug (get_organization_list None [github_org]) = [''acme-org'']"
    by simp
  from handle_from_url[of ?v _ _ gitlab_org] c2 p2 d2
  have b: "extract_org_name_from_url (g_github_url gitlab_org) = Some ''Project.git''
     \<and> map o_github_slug (get_organization_list None [gitlab_org]) = [''project'']"
    by simp
  from a b show ?thesis by simp
qed

text \<open>
  Claim C6 as stated fails twice. The host \<^verbatim>\<open>notgithub.com\<close> is not the expected
  domain, yet it contains \<^verbatim>\<open>github.com\<close>: for \<^verbatim>\<open>https://notgithub.com/a/b\<close>
  the handle derived is the first segment \<^verbatim>\<open>a\<close>, not the last segment
  \<^verbatim>\<open>b\<close>. And for \<^verbatim>\<open>https://github.com/orgs/Acme-Org/repositories\<close> the
  handle emitted is \<^verbatim>\<open>acme-org\<close>, not \<^verbatim>\<open>Acme-Org\<close>.
\<close>

theorem lookalike_host_counterexample:
  "extract_org_name_from_url (Some \<lparr>url_netloc = ''notgithub.com'', url_path = ''/a/b''\<rparr>)
     = Some ''a''
   \<and> last (split_on CHR ''/'' ''/a/b'') = ''b''
   \<and> get_organization_list None [github_org]
       = [\<lparr>o_id = 3, o_display_name = ''Acme'', o_github_slug = ''acme-org''\<rparr>]"
  by code_simp

section \<open>The post-processed handle\<close>

lemma of_char_lower_upper:
  "is_upper c \<Longrightarrow> (of_char (lower_char c) :: nat) = of_char c + 32"
  by (simp add: lower_char_def is_upper_def)

lemma lower_char_not_upper: "\<not> is_upper (lower_char c)"
proof (cases "is_upper c")
  case True
  from of_char_lower_upper[OF True] True show ?thesis by (simp add: is_upper_def)
next
  case False
  then show ?thesis by (simp add: lower_char_def)
qed

lemma lower_char_eq_at: "lower_char c = CHR ''@'' \<longleftrightarrow> c = CHR ''@''"
proof (cases "is_upper c")
  case True
  have "(of_char (lower_char c) :: nat) \<noteq> of_char CHR ''@''"
    using of_char_lower_upper[OF True] True by (simp add: is_upper_def)
  then have "lower_char c \<noteq> CHR ''@''" by auto
  moreover from True have "c \<noteq> CHR ''@''" by (auto simp: is_upper_def)
  ultimately show ?thesis by simp
next
  case False
  then show ?thesis by (simp add: lower_char_def)
qed

lemma lower_char_eq_space: "lower_char c = CHR '' '' \<longleftrightarrow> c = CHR '' ''"
proof (cases "is_upper c")
  case True
  have "(of_char (lower_char c) :: nat) \<noteq> of_char CHR '' ''"
    using of_char_lower_upper[OF True] True by (simp add: is_upper_def)
  then have "lower_char c \<noteq> CHR '' ''" by auto
  moreover from True have "c \<noteq> CHR '' ''" by (auto simp: is_upper_def)
  ultimately show ?thesis by simp
next
  case False
  then show ?thesis by (simp add: lower_char_def)
qed

lemma startswith_iff: "startswith s p \<longleftrightarrow> (\<exists>r. s = p @ r)"
  by (induction s p rule: startswith.induct) auto

lemma endswith_iff: "endswith s suffix \<longleftrightarrow> (\<exists>p. s = p @ suffix)"
proof -
  have "endswith s suffix \<longleftrightarrow> (\<exists>r. rev s = rev suffix @ r)"
    by (simp add: endswith_def startswith_iff)
  also have "\<dots> \<longleftrightarrow> (\<exists>p. s = p @ suffix)"
  proof
    assume "\<exists>r. rev s = rev suffix @ r"
    then obtain r where "rev s = rev suffix @ r" ..
    then have "s = rev r @ suffix" by (metis rev_append rev_rev_ident)
    then show "\<exists>p. s = p @ suffix" ..
  next
    assume "\<exists>p. s = p @ suffix"
    then obtain p where "s = p @ suffix" ..
    then have "rev s = rev suffix @ rev p" by simp
    then show "\<exists>r. rev s = rev suffix @ r" ..
  qed
  finally show ?thesis .
qed

lemma postprocess_slug_cleaned:
  "postprocess_slug raw =
     (if endswith (cleaned raw) ''.git'' then take (length (cleaned raw) - 4) (cleaned raw)
      else cleaned raw)"
  by (simp add: postprocess_slug_def cleaned_def Let_def)

lemma cleaned_no_upper: "list_all (\<lambda>c. \<not> is_upper c) (cleaned raw)"
  by (simp add: cleaned_def lower_def list_all_iff lower_char_not_upper)

lemma cleaned_no_space: "CHR '' '' \<notin> set (cleaned raw)"
proof -
  have "CHR '' '' \<noteq> lower_char (if x = CHR '' '' then CHR ''-'' else x)" for x
    using lower_char_eq_space[of "if x = CHR '' '' then CHR ''-'' else x"] by auto
  then show ?thesis by (auto simp: cleaned_def lower_def replace_char_def)
qed

lemma cleaned_no_leading_at: "\<not> startswith (cleaned raw) ''@''"
proof (cases "dropWhile (\<lambda>c. c = CHR ''@'') raw")
  case Nil
  then have "cleaned raw = []"
    unfolding cleaned_def lstrip_chars_def lower_def replace_char_def by (simp only: list.map)
  then show ?thesis by simp
next
  case (Cons x xs)
  then have "x \<noteq> CHR ''@''" using hd_dropWhile[of "\<lambda>c. c = CHR ''@''" raw] by auto
  then have "lower_char (if x = CHR '' '' then CHR ''-'' else x) \<noteq> CHR ''@''"
    by (simp add: lower_char_eq_at)
  with Cons show ?thesis
    by (simp add: cleaned_def lstrip_chars_def lower_def replace_char_def)
qed

lemma take_prefix_props:
  assumes "list_all (\<lambda>c. \<not> is_upper c) s" "CHR '' '' \<notin> set s" "\<not> startswith s ''@''"
  shows "list_all (\<lambda>c. \<not> is_upper c) (take k s) \<and> CHR '' '' \<notin> set (take k s) \<and>
         \<not> startswith (take k s) ''@''"
proof -
  have "set (take k s) \<subseteq> set s" by (rule set_take_subset)
  with assms(1,2) have a: "list_all (\<lambda>c. \<not> is_upper c) (take k s)" "CHR '' '' \<notin> set (take k s)"
    by (auto simp: list_all_iff)
  have "\<not> startswith (take k s) ''@''"
  proof
    assume "startswith (take k s) ''@''"
    then obtain r where r: "take k s = ''@'' @ r" by (auto simp: startswith_iff)
    have "s = take k s @ drop k s" by simp
    with r have "s = ''@'' @ (r @ drop k s)" by simp
    then have "startswith s ''@''" unfolding startswith_iff by blast
    with assms(3) show False by simp
  qed
  with a show ?thesis by simp
qed

lemma postprocess_slug_props:
  "list_all (\<lambda>c. \<not> is_upper c) (postprocess_slug raw) \<and>
   CHR '' '' \<notin> set (postprocess_slug raw) \<and> \<not> startswith (postprocess_slug raw) ''@''"
  using take_prefix_props[OF cleaned_no_upper cleaned_no_space cleaned_no_leading_at]
    cleaned_no_upper cleaned_no_space cleaned_no_leading_at
  by (simp add: postprocess_slug_cleaned)

lemma postprocess_slug_git:
  "endswith (postprocess_slug raw) ''.git'' \<longleftrightarrow> endswith (cleaned raw) ''.git.git''"
proof (cases "endswith (cleaned raw) ''.git''")
  case True
  then obtain p where p: "cleaned raw = p @ ''.git''" by (auto simp: endswith_iff)
  then have pp: "postprocess_slug raw = p" using True by (simp add: postprocess_slug_cleaned)
  have "endswith p ''.git'' \<longleftrightarrow> endswith (p @ ''.git'') ''.git.git''"
  proof
    assume "endswith p ''.git''"
    then obtain q where "p = q @ ''.git''" by (auto simp: endswith_iff)
    then have "p @ ''.git'' = q @ ''.git.git''" by simp
    then show "endswith (p @ ''.git'') ''.git.git''" unfolding endswith_iff by blast
  next
    assume "endswith (p @ ''.git'') ''.git.git''"
    then obtain q where "p @ ''.git'' = q @ ''.git.git''" by (auto simp: endswith_iff)
    then have "p @ ''.git'' = (q @ ''.git'') @ ''.git''" by simp
    then have "p = q @ ''.git''" by (simp only: append_same_eq)
    then show "endswith p ''.git''" unfolding endswith_iff by blast
  qed
  with p pp show ?thesis by simp
next
  case False
  have "\<not> endswith (cleaned raw) ''.git.git''"
  proof
    assume "endswith (cleaned raw) ''.git.git''"
    then obtain q where "cleaned raw = q @ ''.git.git''" by (auto simp: endswith_iff)
    then have "cleaned raw = (q @ ''.git'') @ ''.git''" by simp
    then have "endswith (cleaned raw) ''.git''" unfolding endswith_iff by blast
    with False show False by simp
  qed
  with False show ?thesis by (simp add: postprocess_slug_cleaned)
qed

lemma normalize_slug_truthy:
  "truthy_str (normalize_slug org) \<Longrightarrow>
   the (normalize_slug org) \<noteq> [] \<and> (\<exists>raw. the (normalize_slug org) = postprocess_slug raw)"
  by (auto simp: normalize_slug_def Let_def truthy_str_def split: if_splits option.splits)

lemma normalize_loop_slugs:
  "list_all (\<lambda>org. well_formed_slug (o_github_slug org)) acc \<Longrightarrow>
   list_all (\<lambda>org. well_formed_slug (o_github_slug org)) (fst (normalize_loop orgs seen acc k))"
proof (induction orgs arbitrary: seen acc k)
  case Nil
  then show ?case by simp
next
  case (Cons org orgs)
  show ?case
  proof (cases "truthy_str (normalize_slug org)")
    case False
    with Cons show ?thesis by (simp add: Let_def)
  next
    case True
    from normalize_slug_truthy[OF True] have "well_formed_slug (the (normalize_slug org))"
      by (simp add: well_formed_slug_def)
    with Cons True show ?thesis by (simp add: Let_def)
  qed
qed

lemma get_organization_list_slugs:
  "org \<in> set (get_organization_list start_from_id table) \<Longrightarrow> well_formed_slug (o_github_slug org)"
proof -
  assume a: "org \<in> set (get_organization_list start_from_id table)"
  have "list_all (\<lambda>org. well_formed_slug (o_github_slug org)) (fst (normalize_loop orgs [] [] 0))" for orgs
    by (rule normalize_loop_slugs) simp
  with a show ?thesis
    by (auto simp: get_organization_list_def Let_def list_all_iff split: option.splits)
qed

text \<open>
  Claim C7, as the code has it. Every handle that \<^verbatim>\<open>get_organization_list\<close> emits
  is non-empty, has no uppercase letter, no leading \<^verbatim>\<open>@\<close> and no space, and is a
  post-processed handle; post-processing removes one \<^verbatim>\<open>.git\<close> suffix, so its
  result ends with \<^verbatim>\<open>.git\<close> exactly when the handle before the removal ended with
  \<^verbatim>\<open>.git.git\<close>.
\<close>

theorem normalized_handle_shape:
  "(\<forall>org \<in> set (get_organization_list start_from_id table).
      o_github_slug org \<noteq> [] \<and>
      list_all (\<lambda>c. \<not> is_upper c) (o_github_slug org) \<and>
      \<not> startswith (o_github_slug org) ''@'' \<and>
      CHR '' '' \<notin> set (o_github_slug org) \<and>
      (\<exists>raw. o_github_slug org = postprocess_slug raw))
   \<and> (endswith (postprocess_slug raw) ''.git'' \<longleftrightarrow> endswith (cleaned raw) ''.git.git'')"
proof (intro conjI ballI)
  fix org
  assume "org \<in> set (get_organization_list start_from_id table)"
  then have "well_formed_slug (o_github_slug org)" by (rule get_organization_list_slugs)
  then obtain r where r: "o_github_slug org \<noteq> []" "o_github_slug org = postprocess_slug r"
    by (auto simp: well_formed_slug_def)
  from r(1) show "o_github_slug org \<noteq> []" .
  from r(2) postprocess_slug_props[of r]
  show "list_all (\<lambda>c. \<not> is_upper c) (o_github_slug org)"
    and "\<not> startswith (o_github_slug org) ''@''"
    and "CHR '' '' \<notin> set (o_github_slug org)"
    by simp_all
  from r(2) show "\<exists>raw. o_github_slug org = postprocess_slug raw" ..
next
  show "endswith (postprocess_slug raw) ''.git'' \<longleftrightarrow> endswith (cleaned raw) ''.git.git''"
    by (rule postprocess_slug_git)
qed

text \<open>
  An instance of C7: a profile URL \<^verbatim>\<open>https://github.com/orgs/Acme-Org/\<close> and a slug
  \<^verbatim>\<open>" /@My Org.git/ "\<close> give the handles \<^verbatim>\<open>acme-org\<close> and \<^verbatim>\<open>my-org\<close>.
\<close>

theorem normalized_handle_shape_witness:
  "get_organization_list None sample_table =
     [\<lparr>o_id = 3, o_display_name = ''Acme'', o_github_slug = ''acme-org''\<rparr>,
      \<lparr>o_id = 5, o_display_name = '' /@My Org.git/ '', o_github_slug = ''my-org''\<rparr>]
   \<and> list_all (\<lambda>c. \<not> is_upper c) ''my-org''
   \<and> \<not> startswith ''my-org'' ''@''
   \<and> CHR '' '' \<notin> set ''my-org''
   \<and> (endswith (postprocess_slug ''@My Org.git'') ''.git'' \<longleftrightarrow>
        endswith (cleaned ''@My Org.git'') ''.git.git'')"
proof -
  have eq: "get_organization_list None sample_table =
     [\<lparr>o_id = 3, o_display_name = ''Acme'', o_github_slug = ''acme-org''\<rparr>,
      \<lparr>o_id = 5, o_display_name = '' /@My Org.git/ '', o_github_slug = ''my-org''\<rparr>]"
    by code_simp
  from normalized_handle_shape[of None sample_table "''@My Org.git''"] eq
  show ?thesis by simp
qed

text \<open>
  Claim C7 as stated fails: for the slug \<^verbatim>\<open>acme.git.git\<close> the handle emitted is
  \<^verbatim>\<open>acme.git\<close>, which ends with \<^verbatim>\<open>.git\<close>.
\<close>

theorem handle_keeps_git_suffix_counterexample:
  "get_organization_list None
     [\<lparr>g_id = 7, g_name = Some ''Acme'', g_github_url = None, g_slug = Some ''acme.git.git''\<rparr>]
   = [\<lparr>o_id = 7, o_display_name = ''Acme'', o_github_slug = ''acme.git''\<rparr>]
   \<and> endswith ''acme.git'' ''.git''"
  by code_simp

section \<open>Bounds on the metrics\<close>

lemma metrics_loop_bounds:
  "0 \<le> merged_prs \<Longrightarrow> merged_prs \<le> total_prs \<Longrightarrow>
   metrics_loop api i repos total_prs merged_prs = (t, m) \<Longrightarrow> 0 \<le> m \<and> m \<le> t"
proof (induction repos arbitrary: i total_prs merged_prs)
  case Nil
  then show ?case by simp
next
  case (Cons r repos)
  let ?prs = "fst (fetch_repo_pr_data (r_owner_login r) (r_name r) (api i))"
  have "int (length (filter is_merged ?prs)) \<le> int (length ?prs)" by simp
  with Cons.prems(2)
  have le: "merged_prs + int (length (filter is_merged ?prs)) \<le> total_prs + int (length ?prs)"
    by linarith
  have ge: "0 \<le> merged_prs + int (length (filter is_merged ?prs))"
    using Cons.prems(1) by simp
  from Cons.prems(3) have
    "metrics_loop api (i + 1) repos (total_prs + int (length ?prs))
       (merged_prs + int (length (filter is_merged ?prs))) = (t, m)"
    by (simp add: Let_def)
  from Cons.IH[OF ge le this] show ?case .
qed

lemma round_half_even_bounds:
  assumes "0 \<le> q" "q \<le> of_int n"
  shows "0 \<le> round_half_even q \<and> round_half_even q \<le> n"
proof -
  have f0: "0 \<le> \<lfloor>q\<rfloor>" using assms(1) by simp
  have fn: "\<lfloor>q\<rfloor> \<le> n" using floor_mono[OF assms(2)] by simp
  show ?thesis
  proof (cases "\<lfloor>q\<rfloor> = n")
    case True
    then have "of_int \<lfloor>q\<rfloor> = (of_int n :: rat)" by simp
    moreover have "of_int \<lfloor>q\<rfloor> \<le> q" by simp
    ultimately have "q - of_int \<lfloor>q\<rfloor> = 0" using assms(2) by linarith
    then show ?thesis using True f0 by (simp add: round_half_even_def Let_def)
  next
    case False
    with fn have "\<lfloor>q\<rfloor> + 1 \<le> n" by simp
    with f0 fn show ?thesis by (auto simp: round_half_even_def Let_def)
  qed
qed

lemma round3_unit_interval:
  assumes "0 \<le> q" "q \<le> 1"
  shows "0 \<le> round3 q \<and> round3 q \<le> 1"
proof -
  have "0 \<le> q * 1000" "q * 1000 \<le> of_int 1000" using assms by simp_all
  from round_half_even_bounds[OF this]
  have b: "0 \<le> round_half_even (q * 1000)" "round_half_even (q * 1000) \<le> 1000" by simp_all
  then have "(0::rat) \<le> of_int (round_half_even (q * 1000))"
    and "(of_int (round_half_even (q * 1000)) :: rat) \<le> 1000"
    by simp_all
  then show ?thesis by (simp add: round3_def)
qed

text \<open>
  Claim C10. For every list of repositories and whatever the servers answer, the
  metrics computed by \<^verbatim>\<open>calculate_metrics\<close> satisfy
  \<open>0 \<le> merged_prs \<le> total_prs\<close> and \<open>0 \<le> merge_frequency \<le> 1\<close>.
\<close>

theorem metrics_bounds:
  "0 \<le> mt_merged_prs (calculate_metrics api repos)
   \<and> mt_merged_prs (calculate_metrics api repos) \<le> mt_total_prs (calculate_metrics api repos)
   \<and> 0 \<le> mt_merge_frequency (calculate_metrics api repos)
   \<and> mt_merge_frequency (calculate_metrics api repos) \<le> 1"
proof -
  obtain t m where tm: "metrics_loop api 0 repos 0 0 = (t, m)"
    by (cases "metrics_loop api 0 repos 0 0") auto
  from metrics_loop_bounds[OF _ _ tm] have b: "0 \<le> m" "m \<le> t" by simp_all
  have "0 \<le> (if t > 0 then of_int m / of_int t else (0::rat))
        \<and> (if t > 0 then of_int m / of_int t else (0::rat)) \<le> 1"
    using b by (auto simp: divide_le_eq_1)
  then have "0 \<le> round3 (if t > 0 then of_int m / of_int t else 0)
        \<and> round3 (if t > 0 then of_int m / of_int t else 0) \<le> 1"
    using round3_unit_interval by blast
  with b tm show ?thesis by (simp add: calculate_metrics_def)
qed

text \<open>
  An instance of C10: one repository with three pull requests, two of them merged,
  gives a merge frequency of 0.667.
\<close>

theorem metrics_bounds_witness:
  "calculate_metrics
     (\<lambda>i. Response 200 [sample_pr 1 50000, pr1, \<lparr>pr_number = 3, pr_title = ''open'',
                           pr_merged_at = Null\<rparr>] None ## sconst Timeout)
     [repo1]
   = \<lparr>mt_total_prs = 3, mt_merged_prs = 2, mt_merge_frequency = 667 / 1000\<rparr>
   \<and> (0::rat) \<le> 667 / 1000 \<and> (667 / 1000 :: rat) \<le> 1"
proof -
  have r: "round3 (2 / 3) = 667 / 1000" by code_simp
  have "calculate_metrics
     (\<lambda>i. Response 200 [sample_pr 1 50000, pr1, \<lparr>pr_number = 3, pr_title = ''open'',
                           pr_merged_at = Null\<rparr>] None ## sconst Timeout)
     [repo1]
   = \<lparr>mt_total_prs = 3, mt_merged_prs = 2, mt_merge_frequency = 667 / 1000\<rparr>"
    by (simp add: calculate_metrics_def fetch_repo_pr_data_def repo_pr_loop_step
          repo_pr_loop_stop truthy_def pulls_url_def is_merged_def sample_pr_def pr1_def r)
  with metrics_bounds[of "\<lambda>i. Response 200 [sample_pr 1 50000, pr1, \<lparr>pr_number = 3,
          pr_title = ''open'', pr_merged_at = Null\<rparr>] None ## sconst Timeout" "[repo1]"]
  show ?thesis by simp
qed

section \<open>The persist step\<close>

lemma persist_loop_step:
  "persist_loop retries fault db display_name github_slug data utcnow attempt slept =
     (if attempt < retries then
        (case fault attempt of
           None \<Rightarrow>
             Inr \<lparr>p_status = Updated,
                  p_db = committed db display_name github_slug data utcnow,
                  p_attempts = attempt + 1, p_slept = slept\<rparr>
         | Some e \<Rightarrow>
             if e = OperationalError then
               persist_loop retries fault db display_name github_slug data utcnow
                 (attempt + 1) (slept + 5)
             else if is_exception e then
               Inr \<lparr>p_status = Aborted e, p_db = db, p_attempts = attempt + 1,
                    p_slept = slept\<rparr>
             else Inl e)
      else Inr \<lparr>p_status = Exhausted, p_db = db, p_attempts = attempt, p_slept = slept\<rparr>)"
  by (rule persist_loop.simps)

text \<open>
  Claim C9. Unless interrupted, the persist step of an organization makes at most
  three attempts. Every attempt before the last raised \<^verbatim>\<open>OperationalError\<close> and was
  followed by a pause of 5 seconds. The step ends with the first attempt that commits;
  or with the first attempt that raises another exception, after which nothing more is
  tried and the database is unchanged; or after three \<^verbatim>\<open>OperationalError\<close>s, with
  the database unchanged. The attempt that commits writes both tables at once: the
  snapshot row of the slug then holds the display name and the fetched followers,
  repository count, bio, fetch time, pull-request totals and merge frequency (its slug
  is the one it had, or the organization's for a new row), the rows of other slugs are
  as before, and the historical table has gained exactly one row, with the slug, the
  display name, the merge frequency, the totals and the time of recording.
\<close>

theorem persist_retry_policy:
  assumes "\<forall>k e. fault k = Some e \<longrightarrow> is_exception e"
  shows "\<exists>res. persist fault db display_name github_slug data utcnow = Inr res
     \<and> p_attempts res \<le> 3
     \<and> (\<forall>k < p_attempts res - 1. fault k = Some OperationalError)
     \<and> (case p_status res of
          Updated \<Rightarrow>
            fault (p_attempts res - 1) = None
            \<and> p_slept res = 5 * (p_attempts res - 1)
            \<and> github_metrics (p_db res) github_slug =
                Some \<lparr>gm_name = display_name,
                      gm_slug = (case github_metrics db github_slug of
                                   None \<Rightarrow> github_slug | Some existing \<Rightarrow> gm_slug existing),
                      gm_github_followers = d_followers data,
                      gm_github_repos = d_public_repos data,
                      gm_github_bio = d_bio data,
                      gm_fetched_at = d_fetched_at data,
                      gm_pull_requests = d_total_prs data,
                      gm_merged_prs = d_merged_prs data,
                      gm_merge_frequency = d_merge_frequency data\<rparr>
            \<and> (\<forall>other. other \<noteq> github_slug \<longrightarrow>
                   github_metrics (p_db res) other = github_metrics db other)
            \<and> historical_metrics (p_db res) =
                historical_metrics db @
                  [\<lparr>hm_organization_slug = github_slug, hm_organization_name = display_name,
                    hm_merge_frequency = d_merge_frequency data,
                    hm_total_prs = d_total_prs data, hm_merged_prs = d_merged_prs data,
                    hm_recorded_at = utcnow\<rparr>]
        | Aborted e \<Rightarrow>
            fault (p_attempts res - 1) = Some e \<and> e \<noteq> OperationalError
            \<and> p_slept res = 5 * (p_attempts res - 1) \<and> p_db res = db
        | Exhausted \<Rightarrow>
            p_attempts res = 3 \<and> fault 2 = Some OperationalError
            \<and> p_slept res = 15 \<and> p_db res = db)"
proof -
  have ex: "is_exception e" if "fault k = Some e" for k e
    using assms that by blast
  have snap: "upsert_snapshot (github_metrics db) display_name github_slug data github_slug =
      Some \<lparr>gm_name = display_name,
            gm_slug = (case github_metrics db github_slug of
                         None \<Rightarrow> github_slug | Some existing \<Rightarrow> gm_slug existing),
            gm_github_followers = d_followers data,
            gm_github_repos = d_public_repos data,
            gm_github_bio = d_bio data,
            gm_fetched_at = d_fetched_at data,
            gm_pull_requests = d_total_prs data,
            gm_merged_prs = d_merged_prs data,
            gm_merge_frequency = d_merge_frequency data\<rparr>"
    by (cases "github_metrics db github_slug") (simp_all add: upsert_snapshot_def)
  have others: "upsert_snapshot (github_metrics db) display_name github_slug data other =
      github_metrics db other" if "other \<noteq> github_slug" for other
    using that by (cases "github_metrics db github_slug") (simp_all add: upsert_snapshot_def)
  note written = snap others historical_entry_def committed_def
  consider
      (ok0) "fault 0 = None"
    | (ab0) e where "fault 0 = Some e" "e \<noteq> OperationalError"
    | (ok1) "fault 0 = Some OperationalError" "fault 1 = None"
    | (ab1) e where "fault 0 = Some OperationalError" "fault 1 = Some e" "e \<noteq> OperationalError"
    | (ok2) "fault 0 = Some OperationalError" "fault 1 = Some OperationalError" "fault 2 = None"
    | (ab2) e where "fault 0 = Some OperationalError" "fault 1 = Some OperationalError"
        "fault 2 = Some e" "e \<noteq> OperationalError"
    | (ex3) "fault 0 = Some OperationalError" "fault 1 = Some OperationalError"
        "fault 2 = Some OperationalError"
    by (cases "fault 0"; cases "fault 1"; cases "fault 2") auto
  then show ?thesis
  proof cases
    case ok0
    then show ?thesis by (simp add: persist_def persist_loop_step written)
  next
    case ab0
    with ex[OF ab0(1)] show ?thesis by (simp add: persist_def persist_loop_step)
  next
    case ok1
    then show ?thesis by (simp add: persist_def persist_loop_step written)
  next
    case ab1
    with ex[OF ab1(2)] show ?thesis by (simp add: persist_def persist_loop_step)
  next
    case ok2
    then show ?thesis
      by (auto simp add: persist_def persist_loop_step written numeral_2_eq_2 less_Suc_eq)
  next
    case ab2
    with ex[OF ab2(3)] show ?thesis
      by (auto simp add: persist_def persist_loop_step numeral_2_eq_2 less_Suc_eq)
  next
    case ex3
    then show ?thesis
      by (auto simp add: persist_def persist_loop_step numeral_2_eq_2 less_Suc_eq)
  qed
qed

text \<open>
  An instance of C9: the first attempt loses the connection, the second commits a new
  snapshot row and the first historical row.
\<close>

theorem persist_retry_policy_witness:
  "persist (\<lambda>k. if k = 0 then Some OperationalError else None) empty_db ''Acme'' ''acme''
     sample_data 90000
   = Inr \<lparr>p_status = Updated,
          p_db = \<lparr>github_metrics =
                    [''acme'' \<mapsto> \<lparr>gm_name = ''Acme'', gm_slug = ''acme'',
                                  gm_github_followers = Some 12, gm_github_repos = Some 4,
                                  gm_github_bio = None, gm_fetched_at = 86400,
                                  gm_pull_requests = 3, gm_merged_prs = 2,
                                  gm_merge_frequency = 667 / 1000\<rparr>],
                  historical_metrics =
                    [\<lparr>hm_organization_slug = ''acme'', hm_organization_name = ''Acme'',
                      hm_merge_frequency = 667 / 1000, hm_total_prs = 3, hm_merged_prs = 2,
                      hm_recorded_at = 90000\<rparr>]\<rparr>,
          p_attempts = 2, p_slept = 5\<rparr>"
proof -
  have a: "\<forall>k e. (if k = 0 then Some OperationalError else None) = Some e \<longrightarrow> is_exception e"
    by (simp add: is_exception_def)
  from persist_retry_policy[of "\<lambda>k. if k = 0 then Some OperationalError else None" empty_db
         "''Acme''" "''acme''" sample_data 90000, OF a]
  show ?thesis
    by (simp add: persist_def persist_loop_step committed_def upsert_snapshot_def
          historical_entry_def empty_db_def sample_data_def)
qed

section \<open>The batch loops\<close>

lemma persist_loop_returns:
  assumes "\<forall>k e. fault k = Some e \<longrightarrow> is_exception e"
  shows "\<exists>res. persist_loop retries fault db display_name github_slug data utcnow attempt slept
           = Inr res"
  using assms
proof (induction retries fault db display_name github_slug data utcnow attempt slept
        rule: persist_loop.induct)
  case (1 retries fault db display_name github_slug data utcnow attempt slept)
  show ?case
  proof (cases "attempt < retries")
    case False
    then show ?thesis by (subst persist_loop.simps) simp
  next
    case True
    show ?thesis
    proof (cases "fault attempt")
      case None
      with True show ?thesis by (subst persist_loop.simps) simp
    next
      case (Some e)
      show ?thesis
      proof (cases "e = OperationalError")
        case op: True
        from "1.IH"[OF True Some op "1.prems"] obtain res where
          "persist_loop retries fault db display_name github_slug data utcnow (attempt + 1)
             (slept + 5) = Inr res" by blast
        with True Some op show ?thesis by (subst persist_loop.simps) simp
      next
        case False
        from "1.prems" Some have "is_exception e" by blast
        with True Some False show ?thesis by (subst persist_loop.simps) simp
      qed
    qed
  qed
qed

lemma update_loop_visits_all:
  assumes "\<forall>org e. fetch org = Inl e \<longrightarrow> is_exception e"
    and "\<forall>org k e. faults org k = Some e \<longrightarrow> is_exception e"
  shows "\<exists>seen db'. update_loop fetch faults utcnow orgs db visited = Inr (visited @ seen, db')
           \<and> map fst seen = orgs"
proof (induction orgs arbitrary: db visited)
  case Nil
  show ?case by simp
next
  case (Cons org orgs)
  have step: "\<exists>seen db'. update_loop fetch faults utcnow (org # orgs) db visited
                 = Inr (visited @ seen, db') \<and> map fst seen = org # orgs"
    if "update_loop fetch faults utcnow (org # orgs) db visited
          = update_loop fetch faults utcnow orgs db1 (visited @ [(org, outcome)])"
    for db1 outcome
  proof -
    from Cons.IH[of db1 "visited @ [(org, outcome)]"] obtain seen db' where
      s: "update_loop fetch faults utcnow orgs db1 (visited @ [(org, outcome)])
            = Inr ((visited @ [(org, outcome)]) @ seen, db')" "map fst seen = orgs"
      by blast
    with that have "update_loop fetch faults utcnow (org # orgs) db visited
        = Inr (visited @ ((org, outcome) # seen), db')" by simp
    then show ?thesis
      using s(2) by (intro exI[of _ "(org, outcome) # seen"] exI[of _ db']) simp
  qed
  show ?case
  proof (cases "fetch org")
    case (Inl e)
    with assms(1) have ex: "is_exception e" by blast
    show ?thesis
    proof (cases "e = FuturesTimeoutError")
      case True
      with Inl have "update_loop fetch faults utcnow (org # orgs) db visited
          = update_loop fetch faults utcnow orgs db (visited @ [(org, FetchTimedOut)])"
        by simp
      then show ?thesis by (rule step)
    next
      case False
      with Inl ex have "update_loop fetch faults utcnow (org # orgs) db visited
          = update_loop fetch faults utcnow orgs db (visited @ [(org, FetchFailed e)])"
        by simp
      then show ?thesis by (rule step)
    qed
  next
    case (Inr data)
    show ?thesis
    proof (cases data)
      case None
      with Inr have "update_loop fetch faults utcnow (org # orgs) db visited
          = update_loop fetch faults utcnow orgs db (visited @ [(org, NoData)])"
        by simp
      then show ?thesis by (rule step)
    next
      case (Some d)
      from assms(2) have "\<forall>k e. faults org k = Some e \<longrightarrow> is_exception e" by blast
      from persist_loop_returns[OF this] obtain res where
        "persist (faults org) db (o_display_name org) (o_github_slug org) d utcnow = Inr res"
        unfolding persist_def by blast
      with Inr Some have "update_loop fetch faults utcnow (org # orgs) db visited
          = update_loop fetch faults utcnow orgs (p_db res)
              (visited @ [(org, Persisted (p_status res))])"
        by simp
      then show ?thesis by (rule step)
    qed
  qed
qed

lemma get_organization_list_filtered:
  "filter (\<lambda>org. o_id org \<ge> start) (get_organization_list (Some start) table) =
   get_organization_list (Some start) table"
  by (simp add: get_organization_list_def Let_def)

lemma merge_dates_loop_visits_all:
  assumes "\<forall>i tbl slug name. \<exists>r tbl'. per_org i tbl slug name = Some (r, tbl') \<and>
             (\<forall>e. r = Inl e \<longrightarrow> is_exception e)"
  shows "\<exists>total_merges' seen table'.
           merge_dates_loop per_org i orgs table total_merges visited
             = Some (Inr (total_merges', visited @ seen, table'))
           \<and> map fst seen = map fst orgs"
proof (induction orgs arbitrary: i table total_merges visited)
  case Nil
  show ?case by simp
next
  case (Cons org orgs)
  obtain slug name where org: "org = (slug, name)" by (cases org)
  from assms obtain r tbl' where r: "per_org i table slug name = Some (r, tbl')"
    "\<forall>e. r = Inl e \<longrightarrow> is_exception e" by blast
  show ?case
  proof (cases r)
    case (Inl e)
    with r have e: "is_exception e" by blast
    from Cons.IH[of "i + 1" tbl' total_merges "visited @ [(slug, Inl e)]"] obtain t' seen table'
      where s: "merge_dates_loop per_org (i + 1) orgs tbl' total_merges (visited @ [(slug, Inl e)])
                  = Some (Inr (t', (visited @ [(slug, Inl e)]) @ seen, table'))"
        "map fst seen = map fst orgs" by blast
    with r(1) Inl e org have
      "merge_dates_loop per_org i (org # orgs) table total_merges visited
         = Some (Inr (t', visited @ ((slug, Inl e) # seen), table'))" by simp
    then show ?thesis
      using s(2) org
      by (intro exI[of _ t'] exI[of _ "(slug, Inl e) # seen"] exI[of _ table']) simp
  next
    case (Inr count)
    from Cons.IH[of "i + 1" tbl' "total_merges + count" "visited @ [(slug, Inr count)]"]
    obtain t' seen table'
      where s: "merge_dates_loop per_org (i + 1) orgs tbl' (total_merges + count)
                  (visited @ [(slug, Inr count)])
                  = Some (Inr (t', (visited @ [(slug, Inr count)]) @ seen, table'))"
        "map fst seen = map fst orgs" by blast
    with r(1) Inr org have
      "merge_dates_loop per_org i (org # orgs) table total_merges visited
         = Some (Inr (t', visited @ ((slug, Inr count) # seen), table'))" by simp
    then show ?thesis
      using s(2) org
      by (intro exI[of _ t'] exI[of _ "(slug, Inr count) # seen"] exI[of _ table']) simp
  qed
qed

text \<open>
  As long as no call is interrupted and every per-organization call returns, both
  batch entry points return normally and visit every organization of their list, in
  order, whatever the outcome of each organization (a fetch that times out or raises,
  no data, a persist step or a database session that fails). For
  \<^verbatim>\<open>update_github_data\<close> nothing is assumed about returning.
\<close>

theorem batch_visits_every_organization:
  assumes "\<forall>org e. fetch org = Inl e \<longrightarrow> is_exception e"
    and "\<forall>org k e. faults org k = Some e \<longrightarrow> is_exception e"
    and "\<forall>i tbl slug name. \<exists>r tbl'.
           fetch_merge_dates_for_organization (envs i) tbl slug name days = Some (r, tbl') \<and>
           (\<forall>e. r = Inl e \<longrightarrow> is_exception e)"
  shows "(\<exists>visited db'.
            update_github_data start_from_id table fetch faults utcnow db = Inr (visited, db')
            \<and> map fst visited = get_organization_list start_from_id table)
       \<and> (\<exists>total_merges visited table'.
            fetch_all_merge_dates envs days orgs merge_dates
              = Some (Inr (total_merges, visited, table'))
            \<and> map fst visited = map fst orgs)"
proof
  let ?orgs = "get_organization_list start_from_id table"
  have sel: "(case start_from_id of
                None \<Rightarrow> ?orgs
              | Some start \<Rightarrow>
                  if start \<noteq> 0 then filter (\<lambda>org. o_id org \<ge> start) ?orgs else ?orgs) = ?orgs"
    by (cases start_from_id) (simp_all add: get_organization_list_filtered)
  from update_loop_visits_all[OF assms(1,2), of utcnow ?orgs db "[]"]
  show "\<exists>visited db'.
            update_github_data start_from_id table fetch faults utcnow db = Inr (visited, db')
            \<and> map fst visited = get_organization_list start_from_id table"
    by (simp add: update_github_data_def Let_def sel)
next
  show "\<exists>total_merges visited table'.
            fetch_all_merge_dates envs days orgs merge_dates
              = Some (Inr (total_merges, visited, table'))
            \<and> map fst visited = map fst orgs"
  proof (cases "orgs = []")
    case True
    then show ?thesis by (simp add: fetch_all_merge_dates_def)
  next
    case False
    from merge_dates_loop_visits_all[of
        "\<lambda>i tbl slug name. fetch_merge_dates_for_organization (envs i) tbl slug name days",
        OF assms(3), of 0 orgs merge_dates 0 "[]"] False
    show ?thesis by (simp add: fetch_all_merge_dates_def)
  qed
qed

text \<open>
  An instance. In the metrics batch the first organization times out, the second is
  persisted and the third has no data; in the merge-date batch the database lookup of
  the first organization raises and the second organization is not found. Both
  batches visit every organization and return.
\<close>

theorem batch_visits_every_organization_witness:
  "update_github_data None batch_table batch_fetch (\<lambda>org k. None) 90000 empty_db
     = Inr ([(\<lparr>o_id = 1, o_display_name = ''Alpha'', o_github_slug = ''alpha''\<rparr>, FetchTimedOut),
             (\<lparr>o_id = 2, o_display_name = ''Beta'', o_github_slug = ''beta''\<rparr>,
              Persisted Updated),
             (\<lparr>o_id = 3, o_display_name = ''Gamma'', o_github_slug = ''gamma''\<rparr>, NoData)],
            committed empty_db ''Beta'' ''beta'' sample_data 90000)
   \<and> fetch_all_merge_dates (\<lambda>i. if i = 0 then failing_env else not_found_env) 1
        [(''alpha'', ''Alpha''), (''beta'', ''Beta'')] []
     = Some (Inr (0, [(''alpha'', Inl OperationalError), (''beta'', Inr 0)], []))"
proof -
  have h1: "\<forall>org e. batch_fetch org = Inl e \<longrightarrow> is_exception e"
    by (simp add: batch_fetch_def is_exception_def)
  have h2: "\<forall>org k e. (\<lambda>org k. None :: exn option) org k = Some e \<longrightarrow> is_exception e"
    by simp
  have failing: "fetch_merge_dates_for_organization failing_env tbl slug name 1
                   = Some (Inl OperationalError, tbl)" for tbl slug name
    by (simp add: fetch_merge_dates_for_organization_def failing_env_def fetch_org_repos_def
          org_repos_loop_step org_repos_loop_stop truthy_def repos_url_def top5_def
          fetch_merged_prs_for_repo_def merged_prs_loop_step pr1_def repo1_def
          store_merge_dates_def)
  have not_found: "fetch_merge_dates_for_organization not_found_env tbl slug name 1
                   = Some (Inr 0, tbl)" for tbl slug name
    by (simp add: fetch_merge_dates_for_organization_def not_found_env_def fetch_org_repos_def
          org_repos_loop_step truthy_def repos_url_def)
  have h3: "\<forall>i tbl slug name. \<exists>r tbl'.
           fetch_merge_dates_for_organization ((\<lambda>i. if i = 0 then failing_env else not_found_env) i)
             tbl slug name 1 = Some (r, tbl') \<and>
           (\<forall>e. r = Inl e \<longrightarrow> is_exception e)"
    by (simp add: failing not_found is_exception_def)
  have orgs: "get_organization_list None batch_table =
     [\<lparr>o_id = 1, o_display_name = ''Alpha'', o_github_slug = ''alpha''\<rparr>,
      \<lparr>o_id = 2, o_display_name = ''Beta'', o_github_slug = ''beta''\<rparr>,
      \<lparr>o_id = 3, o_display_name = ''Gamma'', o_github_slug = ''gamma''\<rparr>]"
    by code_simp
  have a: "update_github_data None batch_table batch_fetch (\<lambda>org k. None) 90000 empty_db
     = Inr ([(\<lparr>o_id = 1, o_display_name = ''Alpha'', o_github_slug = ''alpha''\<rparr>, FetchTimedOut),
             (\<lparr>o_id = 2, o_display_name = ''Beta'', o_github_slug = ''beta''\<rparr>,
              Persisted Updated),
             (\<lparr>o_id = 3, o_display_name = ''Gamma'', o_github_slug = ''gamma''\<rparr>, NoData)],
            committed empty_db ''Beta'' ''beta'' sample_data 90000)"
    by (simp add: update_github_data_def orgs batch_fetch_def persist_def persist_loop_step)
  have b: "fetch_all_merge_dates (\<lambda>i. if i = 0 then failing_env else not_found_env) 1
        [(''alpha'', ''Alpha''), (''beta'', ''Beta'')] []
     = Some (Inr (0, [(''alpha'', Inl OperationalError), (''beta'', Inr 0)], []))"
    by (simp add: fetch_all_merge_dates_def failing not_found is_exception_def)
  from batch_visits_every_organization[OF h1 h2 h3, of None batch_table 90000 empty_db
         "[(''alpha'', ''Alpha''), (''beta'', ''Beta'')]" "[]"] a b
  show ?thesis by simp
qed

section \<open>A batch behind a rate-limited repository\<close>

lemma merged_prs_loop_throttled:
  assumes "p \<le> m"
  shows "merged_prs_loop m c repo (sconst (Response 403 [] None)) p a t = None"
proof (cases "merged_prs_loop m c repo (sconst (Response 403 [] None)) p a t")
  case None
  then show ?thesis .
next
  case (Some y)
  from merged_prs_loop_403_forever[OF Some] assms show ?thesis by simp
qed

lemma throttled_call_never_returns:
  "fetch_merge_dates_for_organization throttled_env tbl slug name 1 = None"
  by (simp add: fetch_merge_dates_for_organization_def throttled_env_def fetch_org_repos_def
        org_repos_loop_step org_repos_loop_stop truthy_def repos_url_def top5_def
        fetch_merged_prs_for_repo_def merged_prs_loop_throttled)

lemma not_found_call_returns:
  "fetch_merge_dates_for_organization not_found_env tbl slug name 1 = Some (Inr 0, tbl)"
  by (simp add: fetch_merge_dates_for_organization_def not_found_env_def fetch_org_repos_def
        org_repos_loop_step truthy_def repos_url_def)

text \<open>
  Claim C8 fails on \<^verbatim>\<open>fetch_all_merge_dates\<close>. When the repository of the first
  organization answers every pull-request request with 403, the call for that
  organization never returns, so the batch never returns and the second organization
  is never visited; when neither organization is found, both are visited.
\<close>

theorem merge_dates_batch_halts:
  "fetch_all_merge_dates (\<lambda>i. if i = 0 then throttled_env else not_found_env) 1
     [(''alpha'', ''Alpha''), (''beta'', ''Beta'')] [] = None
   \<and> fetch_all_merge_dates (\<lambda>i. not_found_env) 1
       [(''alpha'', ''Alpha''), (''beta'', ''Beta'')] []
     = Some (Inr (0, [(''alpha'', Inr 0), (''beta'', Inr 0)], []))"
  by (simp add: fetch_all_merge_dates_def throttled_call_never_returns not_found_call_returns)

section \<open>Idempotent storage of merge dates\<close>

lemma natural_key_row_of [simp]:
  "natural_key (row_of org_slug org_name utcnow p) = key_of org_slug p"
  by (simp add: natural_key_def row_of_def key_of_def)

lemma check_loop_adds_new:
  "check_loop table org_slug org_name utcnow prs added count =
     (added @ map (row_of org_slug org_name utcnow)
                (filter (\<lambda>p. key_of org_slug p \<notin> natural_key ` set table) prs),
      count + length (filter (\<lambda>p. key_of org_slug p \<notin> natural_key ` set table) prs))"
proof (induction prs arbitrary: added count)
  case Nil
  show ?case by simp
next
  case (Cons p prs)
  have "find (\<lambda>row. md_organization_slug row = org_slug \<and>
                     md_merge_date row = date_of (m_merged_at p) \<and>
                     md_pull_request_number row = m_number p \<and>
                     md_repository_name row = m_repo p) table = None
        \<longleftrightarrow> key_of org_slug p \<notin> natural_key ` set table"
    by (auto simp: find_None_iff natural_key_def key_of_def)
  then show ?case
    using Cons.IH by (simp add: Let_def row_of_def)
qed

lemma store_merge_dates_healthy:
  "store_merge_dates Healthy table org_slug org_name utcnow prs =
     (Inr (length (filter (\<lambda>p. key_of org_slug p \<notin> natural_key ` set table) prs)),
      table @ map (row_of org_slug org_name utcnow)
                (filter (\<lambda>p. key_of org_slug p \<notin> natural_key ` set table) prs))"
  by (simp add: store_merge_dates_def check_loop_adds_new)

lemma store_merge_dates_grows:
  "\<exists>added. snd (store_merge_dates fault table org_slug org_name utcnow prs) = table @ added
     \<and> list_all (\<lambda>row. natural_key row \<notin> natural_key ` set table) added"
proof (cases fault)
  case Healthy
  show ?thesis
    unfolding Healthy store_merge_dates_healthy
    by (rule exI[of _ "map (row_of org_slug org_name utcnow)
                (filter (\<lambda>p. key_of org_slug p \<notin> natural_key ` set table) prs)"])
       (simp add: list_all_iff)
next
  case (LookupRaises e)
  then show ?thesis by (intro exI[of _ "[]"]) (simp add: store_merge_dates_def)
next
  case (CommitRaises e)
  then show ?thesis
    by (intro exI[of _ "[]"]) (simp add: store_merge_dates_def check_loop_adds_new)
qed



text \<open>
  The lookup reads the committed table only (\<^verbatim>\<open>autoflush=False\<close>): a pull request
  that occurs twice in one batch is stored twice.
\<close>

lemma pending_rows_not_seen:
  "store_merge_dates Healthy [] ''acme'' ''Acme'' 100000
     [merged_entry ''core'' (sample_pr 1 90000) 90000,
      merged_entry ''core'' (sample_pr 1 90000) 90000]
   = (Inr 2, [row_one 100000, row_one 100000])"
  by (simp add: store_merge_dates_def merged_entry_def sample_pr_def row_one_def date_of_def)










end
